theory Spec2Isabelle
  imports Main
begin

section \<open>JavaScript values used by the console SDK\<close>

text \<open>
  The SDK (\<^verbatim>\<open>src/RowtConsole.ts\<close>) exchanges JSON values with the server. A value is
  modelled by \<open>jvalue\<close>; a field that is missing from an object reads as \<open>None\<close>
  (JavaScript's \<^verbatim>\<open>undefined\<close>), and of a key written twice the last one counts.

  The SDK computes with no number; it only tests numbers for truthiness, prints them and
  passes them on. \<open>Number n\<close> is an integer below \<open>10^21\<close> in magnitude, which JavaScript
  prints with all its digits; \<open>Printed p\<close> is any other finite number, given by the text
  \<open>p\<close> that JavaScript prints for it (\<^verbatim>\<open>2.5\<close>, \<^verbatim>\<open>0.30000000000000004\<close>, \<^verbatim>\<open>1e+21\<close>); such a
  number is not zero.

  \<open>JIso t\<close> is the ISO-8601 string that \<^verbatim>\<open>Date.prototype.toISOString\<close> returns for the time
  value \<open>t\<close> (milliseconds since the epoch), kept folded; \<open>iso_text t\<close> is its text.
\<close>

datatype number = Number int | Printed string | NaN | Infinity | NegInfinity

datatype jvalue =
    JNull
  | JStr string
  | JNum number
  | JBool bool
  | JIso int
  | JArr "jvalue list"
  | JObj "(string \<times> jvalue) list"

fun field :: "jvalue \<Rightarrow> string \<Rightarrow> jvalue option" where
  "field (JObj kvs) k = map_of (rev kvs) k"
| "field _ k = None"

text \<open>JavaScript truthiness, as used by \<^verbatim>\<open>if (x)\<close>, \<^verbatim>\<open>!x\<close> and \<^verbatim>\<open>x || d\<close>.\<close>

fun truthy_string :: "string option \<Rightarrow> bool" where
  "truthy_string None = False"
| "truthy_string (Some t) = (t \<noteq> [])"

fun truthy_number :: "number option \<Rightarrow> bool" where
  "truthy_number None = False"
| "truthy_number (Some NaN) = False"
| "truthy_number (Some (Number n)) = (n \<noteq> 0)"
| "truthy_number (Some (Printed p)) = True"
| "truthy_number (Some Infinity) = True"
| "truthy_number (Some NegInfinity) = True"

fun truthy :: "jvalue \<Rightarrow> bool" where
  "truthy JNull = False"
| "truthy (JStr t) = (t \<noteq> [])"
| "truthy (JNum n) = truthy_number (Some n)"
| "truthy (JBool b) = b"
| "truthy (JIso t) = True"
| "truthy (JArr xs) = True"
| "truthy (JObj kvs) = True"

text \<open>
  JavaScript's conversion of a value to a string (\<^verbatim>\<open>String(v)\<close>, a template literal,
  \<^verbatim>\<open>localStorage.setItem\<close>). \<open>decimal\<close> prints a natural number, \<open>padded w\<close> prints it with
  at least \<open>w\<close> digits, \<open>ymd\<close> is the civil date of a day number counted from 1970-01-01.
\<close>

function decimal :: "nat \<Rightarrow> string" where
  "decimal n =
     (if n < 10 then [''0123456789'' ! n]
      else decimal (n div 10) @ [''0123456789'' ! (n mod 10)])"
  by pat_completeness auto
termination
  by (relation "measure id") auto

declare decimal.simps [simp del]

definition padded :: "nat \<Rightarrow> nat \<Rightarrow> string" where
  "padded w n = replicate (w - length (decimal n)) CHR ''0'' @ decimal n"

fun number_to_string :: "number \<Rightarrow> string" where
  "number_to_string (Number n) = (if n < 0 then ''-'' @ decimal (nat (- n)) else decimal (nat n))"
| "number_to_string (Printed p) = p"
| "number_to_string NaN = ''NaN''"
| "number_to_string Infinity = ''Infinity''"
| "number_to_string NegInfinity = ''-Infinity''"

definition ymd :: "int \<Rightarrow> int \<times> int \<times> int" where
  "ymd days =
     (let z = days + 719468;
          era = z div 146097;
          doe = z mod 146097;
          yoe = (doe - doe div 1460 + doe div 36524 - doe div 146096) div 365;
          doy = doe - (365 * yoe + yoe div 4 - yoe div 100);
          mp = (5 * doy + 2) div 153;
          d = doy - (153 * mp + 2) div 5 + 1;
          m = (if mp < 10 then mp + 3 else mp - 9);
          y = yoe + era * 400 + (if m \<le> 2 then 1 else 0)
      in (y, m, d))"

definition iso_text :: "int \<Rightarrow> string" where
  "iso_text t =
     (let (y, m, d) = ymd (t div 86400000);
          ms = t mod 86400000;
          year = (if 0 \<le> y \<and> y \<le> 9999 then padded 4 (nat y)
                  else (if y < 0 then ''-'' else ''+'') @ padded 6 (nat \<bar>y\<bar>))
      in year @ ''-'' @ padded 2 (nat m) @ ''-'' @ padded 2 (nat d) @ ''T'' @
         padded 2 (nat (ms div 3600000)) @ '':'' @ padded 2 (nat (ms div 60000 mod 60)) @ '':'' @
         padded 2 (nat (ms div 1000 mod 60)) @ ''.'' @ padded 3 (nat (ms mod 1000)) @ ''Z'')"

fun commas :: "string list \<Rightarrow> string" where
  "commas [] = []"
| "commas [x] = x"
| "commas (x # y # zs) = x @ '','' @ commas (y # zs)"

fun to_string :: "jvalue \<Rightarrow> string" where
  "to_string JNull = ''null''"
| "to_string (JStr t) = t"
| "to_string (JNum n) = number_to_string n"
| "to_string (JBool b) = (if b then ''true'' else ''false'')"
| "to_string (JIso t) = iso_text t"
| "to_string (JArr xs) = commas (map (\<lambda>x. if x = JNull then [] else to_string x) xs)"
| "to_string (JObj kvs) = ''[object Object]''"

fun nullable :: "string option \<Rightarrow> jvalue" where
  "nullable None = JNull"
| "nullable (Some t) = JStr t"

section \<open>Token store: \<^verbatim>\<open>localStorage\<close>\<close>

type_synonym storage = "string \<rightharpoonup> string"

definition getItem :: "storage \<Rightarrow> string \<Rightarrow> string option" where
  "getItem st k = st k"

definition setItem :: "string \<Rightarrow> string \<Rightarrow> storage \<Rightarrow> storage" where
  "setItem k v st = st(k \<mapsto> v)"

definition removeItem :: "string \<Rightarrow> storage \<Rightarrow> storage" where
  "removeItem k st = st(k := None)"

section \<open>Requests, errors and the state of a console instance\<close>

text \<open>
  \<open>HttpError n\<close> is an Axios error that carries a response with status \<open>n\<close>,
  \<open>NetworkError\<close> one without a response, \<open>Error m\<close> a JavaScript \<^verbatim>\<open>new Error(m)\<close>,
  \<open>RangeError\<close> what \<^verbatim>\<open>toISOString\<close> throws on an invalid date and \<open>TypeError\<close> what
  destructuring \<^verbatim>\<open>null\<close> throws.
\<close>

datatype error = HttpError nat | NetworkError | Error string | RangeError | TypeError

text \<open>
  The request configuration; \<open>retry\<close> is the field \<^verbatim>\<open>config._retry\<close> (absent reads as
  false), \<open>Authorization\<close> the header \<^verbatim>\<open>config.headers.Authorization\<close>.
\<close>

record config =
  url :: string
  body :: jvalue
  Authorization :: "string option"
  retry :: bool

text \<open>
  Every request is awaited by some piece of code. \<open>Caller c\<close> is an API-surface call
  whose promise is handed to the user; \<open>AutoRefresh\<close> is the \<^verbatim>\<open>await\<close> inside
  \<^verbatim>\<open>refreshToken()\<close> when the response interceptor started it (lines 75-87);
  \<open>ManualRefresh m\<close> is the same \<^verbatim>\<open>await\<close> under \<^verbatim>\<open>manualRefreshToken()\<close>;
  \<open>Logout l\<close> is the \<^verbatim>\<open>await\<close> inside \<^verbatim>\<open>logout()\<close>.
\<close>

datatype waiter = Caller nat | AutoRefresh | ManualRefresh nat | Logout nat

record request =
  req_config :: config
  req_waiter :: waiter

text \<open>
  A \<^verbatim>\<open>RefreshSubscriber\<close> is a pair of closures \<^verbatim>\<open>{onSuccess, onError}\<close> (lines 90-102)
  that capture the failed request's \<^verbatim>\<open>config\<close> and the \<^verbatim>\<open>resolve\<close>/\<^verbatim>\<open>reject\<close> of the
  promise returned to its waiter.
\<close>

record RefreshSubscriber =
  sub_config :: config
  sub_waiter :: waiter

datatype result = Data jvalue | Str string | Bool bool

text \<open>
  The state of one console instance together with its environment: the token store, the
  two private fields of the class, the requests that are on the network and not yet
  answered, and four logs that only grow: \<open>sent\<close> records each request put on the network,
  \<open>registered\<close> each call of \<^verbatim>\<open>subscribeTokenRefresh\<close>, \<open>notified\<close> each call of a
  subscriber's \<^verbatim>\<open>onSuccess(token)\<close> (\<open>Inr token\<close>) or \<^verbatim>\<open>onError(error)\<close> (\<open>Inl error\<close>),
  and \<open>settled\<close> each promise settled towards the code that awaits it.
\<close>

record state =
  localStorage :: storage
  isRefreshing :: bool
  refreshSubscribers :: "RefreshSubscriber list"
  inflight :: "request list"
  sent :: "request list"
  registered :: "RefreshSubscriber list"
  notified :: "(RefreshSubscriber \<times> (error + string)) list"
  settled :: "(waiter \<times> (error + result)) list"

definition init :: "storage \<Rightarrow> state" where
  "init st = \<lparr>localStorage = st, isRefreshing = False, refreshSubscribers = [],
     inflight = [], sent = [], registered = [], notified = [], settled = []\<rparr>"

section \<open>Request signer and transport\<close>

text \<open>The request interceptor, lines 55-61.\<close>

definition request_interceptor :: "storage \<Rightarrow> config \<Rightarrow> config" where
  "request_interceptor st c =
     (case getItem st ''access_token'' of
        None \<Rightarrow> c
      | Some token \<Rightarrow>
          if token \<noteq> [] then c\<lparr>Authorization := Some (''Bearer '' @ token)\<rparr> else c)"

text \<open>
  \<^verbatim>\<open>this.client(config)\<close>: the request passes the request interceptor and goes on the
  network, where it stays until the server answers; \<open>w\<close> awaits the returned promise.
\<close>

definition signed :: "storage \<Rightarrow> config \<Rightarrow> waiter \<Rightarrow> request" where
  "signed st c w = \<lparr>req_config = request_interceptor st c, req_waiter = w\<rparr>"

definition client :: "config \<Rightarrow> waiter \<Rightarrow> state \<Rightarrow> state" where
  "client c w s =
     s\<lparr>inflight := inflight s @ [signed (localStorage s) c w],
       sent := sent s @ [signed (localStorage s) c w]\<rparr>"

definition post :: "string \<Rightarrow> jvalue \<Rightarrow> waiter \<Rightarrow> state \<Rightarrow> state" where
  "post u b w s = client \<lparr>url = u, body = b, Authorization = None, retry = False\<rparr> w s"

section \<open>Token handling\<close>

definition clearTokens :: "state \<Rightarrow> state" where
  "clearTokens s =
     s\<lparr>localStorage := removeItem ''refresh_token'' (removeItem ''access_token'' (localStorage s))\<rparr>"

definition settle :: "waiter \<Rightarrow> error + result \<Rightarrow> state \<Rightarrow> state" where
  "settle w out s = s\<lparr>settled := settled s @ [(w, out)]\<rparr>"

text \<open>
  \<^verbatim>\<open>refreshToken()\<close>, lines 127-131 and 133-142: up to its \<^verbatim>\<open>await\<close>. It throws at once
  when the store holds no refresh token (\<open>Some error\<close>); otherwise the exchange goes on
  the network, awaited by \<open>w\<close>.
\<close>

definition refreshToken :: "waiter \<Rightarrow> state \<Rightarrow> error option \<times> state" where
  "refreshToken w s =
     (case getItem (localStorage s) ''refresh_token'' of
        None \<Rightarrow> (Some (Error ''No refresh token available''), s)
      | Some refreshToken \<Rightarrow>
          if refreshToken = [] then (Some (Error ''No refresh token available''), s)
          else (None, post ''/auth/refresh'' (JObj [(''refresh_token'', JStr refreshToken)]) w s))"

text \<open>
  \<^verbatim>\<open>refreshToken()\<close>, lines 144-151: after the \<^verbatim>\<open>await\<close> returned the response body \<open>d\<close>.
  Destructuring a \<^verbatim>\<open>null\<close> body throws a \<^verbatim>\<open>TypeError\<close>; any other body that is not an
  object has neither field. The two fields are tested for truthiness only, so a truthy
  value that is not a string is accepted, and \<^verbatim>\<open>setItem\<close> stores it as a string. The token
  returned goes into a template literal (line 94), so it is given here as that string.
\<close>

definition refreshToken_resume :: "jvalue \<Rightarrow> state \<Rightarrow> (error + string) \<times> state" where
  "refreshToken_resume d s =
     (if d = JNull then (Inl TypeError, s)
      else
        (case (field d ''access_token'', field d ''refresh_token'') of
           (Some access_token, Some refresh_token) \<Rightarrow>
             if truthy access_token \<and> truthy refresh_token
             then (Inr (to_string access_token),
                   s\<lparr>localStorage :=
                       setItem ''refresh_token'' (to_string refresh_token)
                         (setItem ''access_token'' (to_string access_token) (localStorage s))\<rparr>)
             else (Inl (Error ''Invalid token response''), s)
         | _ \<Rightarrow> (Inl (Error ''Invalid token response''), s)))"

section \<open>Refresh coordinator\<close>

definition subscribeTokenRefresh :: "RefreshSubscriber \<Rightarrow> state \<Rightarrow> state" where
  "subscribeTokenRefresh sub s =
     s\<lparr>refreshSubscribers := refreshSubscribers s @ [sub], registered := registered s @ [sub]\<rparr>"

text \<open>
  What the code awaiting a promise does when the promise is rejected by a subscriber's
  \<^verbatim>\<open>onError\<close>: user code receives the error; \<^verbatim>\<open>logout\<close> runs its \<^verbatim>\<open>finally\<close> block
  (lines 179-182); \<^verbatim>\<open>manualRefreshToken\<close> runs its \<^verbatim>\<open>catch\<close> block (lines 464-467). For
  \<open>AutoRefresh\<close> the \<^verbatim>\<open>catch\<close>/\<^verbatim>\<open>finally\<close> handlers of lines 80-87 run; they run as
  microtasks after \<^verbatim>\<open>onRefreshFailed\<close> has emptied the subscriber list, so that their own
  \<^verbatim>\<open>onRefreshFailed\<close> visits no subscriber.
\<close>

fun rejected :: "waiter \<Rightarrow> error \<Rightarrow> state \<Rightarrow> state" where
  "rejected (Caller c) e s = settle (Caller c) (Inl e) s"
| "rejected (Logout l) e s = settle (Logout l) (Inr (Str ''Logout successful'')) (clearTokens s)"
| "rejected (ManualRefresh m) e s = settle (ManualRefresh m) (Inr (Bool False)) (clearTokens s)"
| "rejected AutoRefresh e s = (clearTokens s)\<lparr>refreshSubscribers := [], isRefreshing := False\<rparr>"

text \<open>The two closures of a subscriber, lines 92-100.\<close>

definition onSuccess :: "RefreshSubscriber \<Rightarrow> string \<Rightarrow> state \<Rightarrow> state" where
  "onSuccess sub token s =
     client ((sub_config sub)\<lparr>Authorization := Some (''Bearer '' @ token)\<rparr>) (sub_waiter sub)
       (s\<lparr>notified := notified s @ [(sub, Inr token)]\<rparr>)"

definition onError :: "RefreshSubscriber \<Rightarrow> error \<Rightarrow> state \<Rightarrow> state" where
  "onError sub e s = rejected (sub_waiter sub) e (s\<lparr>notified := notified s @ [(sub, Inl e)]\<rparr>)"

text \<open>\<^verbatim>\<open>onRefreshed\<close> and \<^verbatim>\<open>onRefreshFailed\<close>, lines 117-125.\<close>

definition onRefreshed :: "string \<Rightarrow> state \<Rightarrow> state" where
  "onRefreshed newToken s =
     (fold (\<lambda>sub. onSuccess sub newToken) (refreshSubscribers s) s)\<lparr>refreshSubscribers := []\<rparr>"

definition onRefreshFailed :: "error \<Rightarrow> state \<Rightarrow> state" where
  "onRefreshFailed e s =
     (fold (\<lambda>sub. onError sub e) (refreshSubscribers s) s)\<lparr>refreshSubscribers := []\<rparr>"

text \<open>
  The handlers chained on the automatic refresh, lines 76-87: \<^verbatim>\<open>then\<close>, \<^verbatim>\<open>catch\<close>, and
  the \<^verbatim>\<open>finally\<close> that follows either.
\<close>

definition refresh_then :: "string \<Rightarrow> state \<Rightarrow> state" where
  "refresh_then newToken s = (onRefreshed newToken s)\<lparr>isRefreshing := False\<rparr>"

definition refresh_catch :: "error \<Rightarrow> state \<Rightarrow> state" where
  "refresh_catch err s = (onRefreshFailed err (clearTokens s))\<lparr>isRefreshing := False\<rparr>"

text \<open>A promise rejected by the response interceptor itself (line 105).\<close>

definition reject :: "waiter \<Rightarrow> error \<Rightarrow> state \<Rightarrow> state" where
  "reject w e s = (case w of AutoRefresh \<Rightarrow> refresh_catch e s | _ \<Rightarrow> rejected w e s)"

text \<open>A promise fulfilled with the response body \<open>d\<close> (line 65).\<close>

fun resolved :: "waiter \<Rightarrow> jvalue \<Rightarrow> state \<Rightarrow> state" where
  "resolved (Caller c) d s = settle (Caller c) (Inr (Data d)) s"
| "resolved (Logout l) d s = settle (Logout l) (Inr (Str ''Logout successful'')) (clearTokens s)"
| "resolved (ManualRefresh m) d s =
     (case refreshToken_resume d s of
        (Inr newToken, s') \<Rightarrow> settle (ManualRefresh m) (Inr (Bool True)) s'
      | (Inl err, s') \<Rightarrow> settle (ManualRefresh m) (Inr (Bool False)) (clearTokens s'))"
| "resolved AutoRefresh d s =
     (case refreshToken_resume d s of
        (Inr newToken, s') \<Rightarrow> refresh_then newToken s'
      | (Inl err, s') \<Rightarrow> refresh_catch err s')"

section \<open>Response gatekeeper\<close>

text \<open>
  The rejection handler of the response interceptor, lines 66-106. \<open>pending_caller r\<close>
  is the subscriber built for the failed request \<open>r\<close>: its closures capture the
  configuration marked by line 70. The subscriber is registered synchronously (lines
  90-102); when \<^verbatim>\<open>refreshToken()\<close> threw at once, its
  \<^verbatim>\<open>catch\<close>/\<^verbatim>\<open>finally\<close> handlers run as microtasks after that registration.
\<close>

definition pending_caller :: "request \<Rightarrow> RefreshSubscriber" where
  "pending_caller r = \<lparr>sub_config = (req_config r)\<lparr>retry := True\<rparr>, sub_waiter = req_waiter r\<rparr>"

definition response_rejected :: "request \<Rightarrow> error \<Rightarrow> state \<Rightarrow> state" where
  "response_rejected r e s =
     (if e = HttpError 401 \<and> \<not> retry (req_config r) then
        let (thrown, s1) =
              (if \<not> isRefreshing s then refreshToken AutoRefresh (s\<lparr>isRefreshing := True\<rparr>)
               else (None, s));
            s2 = subscribeTokenRefresh (pending_caller r) s1
        in (case thrown of None \<Rightarrow> s2 | Some err \<Rightarrow> refresh_catch err s2)
      else reject (req_waiter r) e s)"

text \<open>
  The server's answer to a request: a status with a body, or no response at all. Axios
  fulfils the promise for a status in 200..299 and rejects it otherwise.
\<close>

datatype response = Response nat jvalue | NoResponse

definition respond :: "nat \<Rightarrow> response \<Rightarrow> state \<Rightarrow> state" where
  "respond k resp s =
     (if k < length (inflight s) then
        let r = inflight s ! k;
            s' = s\<lparr>inflight := take k (inflight s) @ drop (Suc k) (inflight s)\<rparr>
        in (case resp of
              Response status d \<Rightarrow>
                if 200 \<le> status \<and> status < 300 then resolved (req_waiter r) d s'
                else response_rejected r (HttpError status) s'
            | NoResponse \<Rightarrow> response_rejected r NetworkError s')
      else s)"

section \<open>Entry points that start with a request\<close>

text \<open>\<^verbatim>\<open>logout()\<close>, lines 166-178, up to its \<^verbatim>\<open>await\<close>.\<close>

definition logout :: "nat \<Rightarrow> state \<Rightarrow> state" where
  "logout l s =
     post ''/auth/logout''
       (JObj [(''access_token'', nullable (getItem (localStorage s) ''access_token'')),
              (''refresh_token'', nullable (getItem (localStorage s) ''refresh_token''))])
       (Logout l) s"

text \<open>\<^verbatim>\<open>manualRefreshToken()\<close>, lines 460-468, up to the \<^verbatim>\<open>await\<close> inside \<^verbatim>\<open>refreshToken()\<close>.\<close>

definition manualRefreshToken :: "nat \<Rightarrow> state \<Rightarrow> state" where
  "manualRefreshToken m s =
     (case refreshToken (ManualRefresh m) s of
        (None, s') \<Rightarrow> s'
      | (Some err, s') \<Rightarrow> rejected (ManualRefresh m) err s')"

text \<open>
  One task of the event loop: user code starts an operation, or the answer to the
  \<open>k\<close>-th request on the network arrives. JavaScript runs a task together with the
  microtasks it queues (promise reactions) to completion before the next task starts, and
  no answer arrives in the middle of a task; so each event is one function on the state.
  Axios keeps the fields of a configuration, \<^verbatim>\<open>_retry\<close> among them, when the
  configuration is sent again.
\<close>

datatype event =
    Call nat string jvalue
  | LogoutCall nat
  | ManualRefreshCall nat
  | Respond nat response

fun step :: "event \<Rightarrow> state \<Rightarrow> state" where
  "step (Call c u b) s = post u b (Caller c) s"
| "step (LogoutCall l) s = logout l s"
| "step (ManualRefreshCall m) s = manualRefreshToken m s"
| "step (Respond k resp) s = respond k resp s"

definition run :: "event list \<Rightarrow> state \<Rightarrow> state" where
  "run evs s = fold step evs s"

section \<open>API surface\<close>

text \<open>
  An API-surface method is an \<^verbatim>\<open>async\<close> function: \<open>Inl e\<close> is the promise rejected by a
  \<^verbatim>\<open>throw\<close> before anything was sent (the state is untouched), \<open>Inr s'\<close> the state once
  the method is suspended at its \<^verbatim>\<open>await\<close>. An identifier argument is a \<open>string option\<close>,
  \<open>None\<close> being a missing (\<^verbatim>\<open>undefined\<close>) argument of a caller that is not type-checked.
\<close>

definition getLinksByProjectId :: "nat \<Rightarrow> string option \<Rightarrow> bool \<Rightarrow> state \<Rightarrow> error + state" where
  "getLinksByProjectId c projectId includeInteractions s =
     (case projectId of
        None \<Rightarrow> Inl (Error ''Missing projectId'')
      | Some pid \<Rightarrow>
          if pid = [] then Inl (Error ''Missing projectId'')
          else Inr (post ''/link/byProjectId''
                 (JObj [(''projectId'', JStr pid), (''includeInteractions'', JBool includeInteractions)])
                 (Caller c) s))"

text \<open>
  A JavaScript \<^verbatim>\<open>Date\<close> holds a time value in milliseconds or is invalid;
  \<^verbatim>\<open>toISOString()\<close> throws a \<^verbatim>\<open>RangeError\<close> on an invalid date.
\<close>

datatype date = Date int | InvalidDate

fun toISOString :: "date \<Rightarrow> error + jvalue" where
  "toISOString (Date t) = Inr (JIso t)"
| "toISOString InvalidDate = Inl RangeError"

text \<open>Object spread \<^verbatim>\<open>{ ...a, ...b }\<close> on the entries of two objects.\<close>

definition spread :: "(string \<times> jvalue) list \<Rightarrow> (string \<times> jvalue) list \<Rightarrow> (string \<times> jvalue) list" where
  "spread a b =
     map (\<lambda>(k, v). (k, case map_of b k of None \<Rightarrow> v | Some v' \<Rightarrow> v')) a @
     filter (\<lambda>(k, v). map_of a k = None) b"

text \<open>\<^verbatim>\<open>getProjectById\<close>, lines 246-268; \<open>now\<close> is the clock read by \<^verbatim>\<open>Date.now()\<close>.\<close>

definition getProjectById ::
  "nat \<Rightarrow> int \<Rightarrow> string option \<Rightarrow> (string \<times> jvalue) list \<Rightarrow> state \<Rightarrow> error + state" where
  "getProjectById c now projectId options s =
     (case projectId of
        None \<Rightarrow> Inl (Error ''Missing projectId'')
      | Some pid \<Rightarrow>
          if pid = [] then Inl (Error ''Missing projectId'')
          else
            let defaultOptions =
                  [(''includeLinks'', JBool False), (''includeInteractions'', JBool False),
                   (''startDate'', JIso (now - 7 * 24 * 60 * 60 * 1000)), (''endDate'', JIso now)];
                mergedOptions = spread defaultOptions options
            in Inr (post ''/projects/getById''
                 (JObj [(''id'', JStr pid), (''options'', JObj mergedOptions)]) (Caller c) s))"

text \<open>
  \<^verbatim>\<open>getAnalytics\<close>, lines 270-295. The query string of the GET request is kept as the
  object of its parameters; a filter whose value is \<^verbatim>\<open>null\<close> is left out, any other is
  appended as the string \<^verbatim>\<open>value.toString()\<close>.
\<close>

definition getAnalytics ::
  "nat \<Rightarrow> string option \<Rightarrow> date \<Rightarrow> date \<Rightarrow> (string \<times> jvalue) list \<Rightarrow> state \<Rightarrow> error + state" where
  "getAnalytics c projectId startDate endDate filters s =
     (case projectId of
        None \<Rightarrow> Inl (Error ''Missing projectId'')
      | Some pid \<Rightarrow>
          if pid = [] then Inl (Error ''Missing projectId'')
          else
            (case toISOString startDate of
               Inl e \<Rightarrow> Inl e
             | Inr start \<Rightarrow>
                 (case toISOString endDate of
                    Inl e \<Rightarrow> Inl e
                  | Inr end \<Rightarrow>
                      Inr (post ''/analytics''
                        (JObj ([(''projectId'', JStr pid), (''startDate'', start), (''endDate'', end)] @
                               map (\<lambda>(k, v). (k, JStr (to_string v)))
                                 (filter (\<lambda>(k, v). v \<noteq> JNull) filters)))
                        (Caller c) s))))"

text \<open>\<^verbatim>\<open>regenerateApiKey\<close>, lines 391-402.\<close>

definition regenerateApiKey :: "nat \<Rightarrow> string option \<Rightarrow> state \<Rightarrow> error + state" where
  "regenerateApiKey c projectId s =
     (case projectId of
        None \<Rightarrow> Inl (Error ''Missing projectId'')
      | Some pid \<Rightarrow>
          if pid = [] then Inl (Error ''Missing projectId'')
          else Inr (post ''/projects/generateApiKey'' (JObj [(''projectId'', JStr pid)]) (Caller c) s))"

text \<open>
  \<^verbatim>\<open>getUserUsage\<close> and \<^verbatim>\<open>getUserTier\<close>, lines 404-412: the identifier goes into the body as
  it is; a missing one is left out of the JSON object.
\<close>

definition user_body :: "string option \<Rightarrow> jvalue" where
  "user_body userId = JObj (case userId of None \<Rightarrow> [] | Some uid \<Rightarrow> [(''userId'', JStr uid)])"

definition getUserUsage :: "nat \<Rightarrow> string option \<Rightarrow> state \<Rightarrow> error + state" where
  "getUserUsage c userId s = Inr (post ''/users/usage'' (user_body userId) (Caller c) s)"

definition getUserTier :: "nat \<Rightarrow> string option \<Rightarrow> state \<Rightarrow> error + state" where
  "getUserTier c userId s = Inr (post ''/users/tier'' (user_body userId) (Caller c) s)"

text \<open>\<^verbatim>\<open>AnalyticsBreakdownRequest\<close> of \<^verbatim>\<open>src/types.ts\<close>, each field as it may arrive at run time.\<close>

record AnalyticsBreakdownRequest =
  projectId :: "string option"
  dimension :: "string option"
  startDate :: "date option"
  endDate :: "date option"
  timezone :: "string option"
  limit :: "number option"
  offset :: "number option"
  filters :: "jvalue option"

text \<open>
  \<^verbatim>\<open>getAnalyticsBreakdown\<close>, lines 321-342: validation and payload. \<open>tz\<close> is the time zone
  \<^verbatim>\<open>Intl.DateTimeFormat().resolvedOptions().timeZone\<close> of the environment.
\<close>

definition breakdown_payload :: "string \<Rightarrow> AnalyticsBreakdownRequest \<Rightarrow> error + jvalue" where
  "breakdown_payload tz request =
     (if \<not> truthy_string (projectId request) then Inl (Error ''Missing projectId'')
      else if \<not> truthy_string (dimension request) then Inl (Error ''Missing dimension'')
      else
        (case (projectId request, dimension request, startDate request, endDate request) of
           (Some pid, Some dim, Some sd, Some ed) \<Rightarrow>
             (case toISOString sd of
                Inl e \<Rightarrow> Inl e
              | Inr start \<Rightarrow>
                  (case toISOString ed of
                     Inl e \<Rightarrow> Inl e
                   | Inr end \<Rightarrow>
                       Inr (JObj
                         [(''projectId'', JStr pid),
                          (''dimension'', JStr dim),
                          (''startDate'', start),
                          (''endDate'', end),
                          (''timezone'',
                             JStr (if truthy_string (timezone request)
                                   then (case timezone request of Some z \<Rightarrow> z | None \<Rightarrow> tz) else tz)),
                          (''limit'',
                             JNum (if truthy_number (limit request)
                                   then (case limit request of Some n \<Rightarrow> n | None \<Rightarrow> Number 50)
                                   else Number 50)),
                          (''offset'',
                             JNum (if truthy_number (offset request)
                                   then (case offset request of Some n \<Rightarrow> n | None \<Rightarrow> Number 0)
                                   else Number 0)),
                          (''filters'',
                             (case filters request of
                                Some f \<Rightarrow> if truthy f then f else JObj []
                              | None \<Rightarrow> JObj []))])))
         | _ \<Rightarrow> Inl (Error ''Missing startDate or endDate'')))"

definition getAnalyticsBreakdown ::
  "nat \<Rightarrow> string \<Rightarrow> AnalyticsBreakdownRequest \<Rightarrow> state \<Rightarrow> error + state" where
  "getAnalyticsBreakdown c tz request s =
     (case breakdown_payload tz request of
        Inl e \<Rightarrow> Inl e
      | Inr payload \<Rightarrow> Inr (post ''/analytics/breakdown'' payload (Caller c) s))"

section \<open>Notions used to state the properties\<close>

fun is_caller :: "waiter \<Rightarrow> bool" where
  "is_caller (Caller c) = True"
| "is_caller _ = False"

text \<open>What the transport hands to the code awaiting a request that is not parked for a refresh.\<close>

fun transport_outcome :: "response \<Rightarrow> error + result" where
  "transport_outcome (Response status d) =
     (if 200 \<le> status \<and> status < 300 then Inr (Data d) else Inl (HttpError status))"
| "transport_outcome NoResponse = Inl NetworkError"

text \<open>
  The refresh exchange that \<^verbatim>\<open>refreshToken()\<close> puts on the network for the interceptor,
  and the request that \<^verbatim>\<open>onSuccess\<close> sends again for a subscriber.
\<close>

definition refresh_exchange :: "storage \<Rightarrow> string \<Rightarrow> request" where
  "refresh_exchange st rt =
     signed st \<lparr>url = ''/auth/refresh'', body = JObj [(''refresh_token'', JStr rt)],
                Authorization = None, retry = False\<rparr> AutoRefresh"

definition retried :: "string \<Rightarrow> RefreshSubscriber \<Rightarrow> request" where
  "retried token sub =
     \<lparr>req_config = (sub_config sub)\<lparr>Authorization := Some (''Bearer '' @ token)\<rparr>,
      req_waiter = sub_waiter sub\<rparr>"

text \<open>
  The error with which \<^verbatim>\<open>refreshToken()\<close> ends for an answer to its exchange, when the
  answer reaches it: an error status, no response, a \<^verbatim>\<open>null\<close> body, or a body in which
  one of the two tokens is missing or falsy. \<open>None\<close>: the answer is a token pair.
\<close>

fun exchange_error :: "response \<Rightarrow> error option" where
  "exchange_error (Response status d) =
     (if 200 \<le> status \<and> status < 300 then
        (if d = JNull then Some TypeError
         else
           (case (field d ''access_token'', field d ''refresh_token'') of
              (Some access_token, Some refresh_token) \<Rightarrow>
                if truthy access_token \<and> truthy refresh_token then None
                else Some (Error ''Invalid token response'')
            | _ \<Rightarrow> Some (Error ''Invalid token response'')))
      else Some (HttpError status))"
| "exchange_error NoResponse = Some NetworkError"

text \<open>
  Answering requests by their position on the network: \<open>in_range ks xs\<close> says that each
  index of \<open>ks\<close> points into what is left of \<open>xs\<close> when its turn comes, \<open>answered ks xs\<close>
  lists the requests picked, in the order of \<open>ks\<close>, and \<open>remaining ks xs\<close> those left.
\<close>

fun in_range :: "nat list \<Rightarrow> 'a list \<Rightarrow> bool" where
  "in_range [] xs = True"
| "in_range (k # ks) xs = (k < length xs \<and> in_range ks (take k xs @ drop (Suc k) xs))"

fun answered :: "nat list \<Rightarrow> 'a list \<Rightarrow> 'a list" where
  "answered [] xs = []"
| "answered (k # ks) xs = xs ! k # answered ks (take k xs @ drop (Suc k) xs)"

fun remaining :: "nat list \<Rightarrow> 'a list \<Rightarrow> 'a list" where
  "remaining [] xs = xs"
| "remaining (k # ks) xs = remaining ks (take k xs @ drop (Suc k) xs)"

text \<open>
  \<open>string_field d k = Some t\<close> says that the field \<open>k\<close> of \<open>d\<close> holds the string \<open>t\<close>. It
  only serves to state a property for answers whose tokens are strings; the SDK never
  tests that a token is a string (\<open>refreshToken_resume\<close> reads the field itself).
\<close>

definition string_field :: "jvalue \<Rightarrow> string \<Rightarrow> string option" where
  "string_field d k = (case field d k of Some (JStr t) \<Rightarrow> Some t | _ \<Rightarrow> None)"

text \<open>
  Refresh exchanges started by the interceptor: those among a list of requests, and those
  parked in the subscriber list. \<open>single_flight\<close> bounds their number by the flag.
\<close>

definition auto_requests :: "request list \<Rightarrow> nat" where
  "auto_requests rs = length (filter (\<lambda>r. req_waiter r = AutoRefresh) rs)"

definition auto_parked :: "RefreshSubscriber list \<Rightarrow> nat" where
  "auto_parked subs = length (filter (\<lambda>sub. sub_waiter sub = AutoRefresh) subs)"


text \<open>A store that holds a token pair.\<close>

definition logged_in :: storage where
  "logged_in = [''access_token'' \<mapsto> ''at1'', ''refresh_token'' \<mapsto> ''rt1'']"

section \<open>Auxiliary facts\<close>

lemma fold_onSuccess:
  "fold (\<lambda>sub. onSuccess sub tk) subs s =
     s\<lparr>inflight := inflight s @
          map (\<lambda>sub. signed (localStorage s) ((sub_config sub)\<lparr>Authorization := Some (''Bearer '' @ tk)\<rparr>) (sub_waiter sub)) subs,
       sent := sent s @
          map (\<lambda>sub. signed (localStorage s) ((sub_config sub)\<lparr>Authorization := Some (''Bearer '' @ tk)\<rparr>) (sub_waiter sub)) subs,
       notified := notified s @ map (\<lambda>sub. (sub, Inr tk)) subs\<rparr>"
  by (induction subs arbitrary: s) (simp_all add: onSuccess_def client_def)

lemma rejected_frame:
  "notified (rejected w e s) = notified s"
  "registered (rejected w e s) = registered s"
  "inflight (rejected w e s) = inflight s"
  "sent (rejected w e s) = sent s"
  by (cases w; simp add: settle_def clearTokens_def)+

lemma fold_onError_frame:
  "notified (fold (\<lambda>sub. onError sub e) subs s) = notified s @ map (\<lambda>sub. (sub, Inl e)) subs"
  "registered (fold (\<lambda>sub. onError sub e) subs s) = registered s"
  "inflight (fold (\<lambda>sub. onError sub e) subs s) = inflight s"
  "sent (fold (\<lambda>sub. onError sub e) subs s) = sent s"
  by (induction subs arbitrary: s; simp add: onError_def rejected_frame)+

lemma fold_onError_callers:
  "list_all (\<lambda>sub. is_caller (sub_waiter sub)) subs \<Longrightarrow>
   fold (\<lambda>sub. onError sub e) subs s =
     s\<lparr>notified := notified s @ map (\<lambda>sub. (sub, Inl e)) subs,
       settled := settled s @ map (\<lambda>sub. (sub_waiter sub, Inl e)) subs\<rparr>"
proof (induction subs arbitrary: s)
  case Nil
  then show ?case by simp
next
  case (Cons x xs)
  then obtain c where "sub_waiter x = Caller c" by (cases "sub_waiter x") auto
  with Cons show ?case by (simp add: onError_def settle_def)
qed

lemma refresh_then_fields:
  "notified (refresh_then tk s) = notified s @ map (\<lambda>sub. (sub, Inr tk)) (refreshSubscribers s)"
  "refreshSubscribers (refresh_then tk s) = []"
  "registered (refresh_then tk s) = registered s"
  "isRefreshing (refresh_then tk s) = False"
  "inflight (refresh_then tk s) = inflight s @
     map (\<lambda>sub. signed (localStorage s) ((sub_config sub)\<lparr>Authorization := Some (''Bearer '' @ tk)\<rparr>) (sub_waiter sub)) (refreshSubscribers s)"
  by (simp_all add: refresh_then_def onRefreshed_def fold_onSuccess)

lemma refresh_catch_fields:
  "notified (refresh_catch e s) = notified s @ map (\<lambda>sub. (sub, Inl e)) (refreshSubscribers s)"
  "refreshSubscribers (refresh_catch e s) = []"
  "registered (refresh_catch e s) = registered s"
  "isRefreshing (refresh_catch e s) = False"
  "inflight (refresh_catch e s) = inflight s"
  by (simp_all add: refresh_catch_def onRefreshFailed_def fold_onError_frame clearTokens_def)

lemma refreshToken_resume_frame:
  "refreshToken_resume d s = (out, s') \<Longrightarrow>
     registered s' = registered s \<and> notified s' = notified s \<and>
     refreshSubscribers s' = refreshSubscribers s \<and> inflight s' = inflight s \<and>
     isRefreshing s' = isRefreshing s \<and> sent s' = sent s \<and> settled s' = settled s"
  by (auto simp: refreshToken_resume_def split: option.splits if_splits)

lemma run_invariant:
  assumes "P s" and "\<And>e s. P s \<Longrightarrow> P (step e s)"
  shows "P (run evs s)"
  unfolding run_def using assms(1)
  by (induction evs arbitrary: s) (simp_all add: assms(2))

lemma registered_step:
  assumes "registered s = map fst (notified s) @ refreshSubscribers s"
  shows "registered (step ev s) = map fst (notified (step ev s)) @ refreshSubscribers (step ev s)"
proof (cases ev)
  case (Call c u b)
  with assms show ?thesis by (simp add: post_def client_def)
next
  case (LogoutCall l)
  with assms show ?thesis by (simp add: logout_def post_def client_def)
next
  case (ManualRefreshCall m)
  with assms show ?thesis
    by (simp add: manualRefreshToken_def refreshToken_def post_def client_def settle_def clearTokens_def
        split: option.splits)
next
  case (Respond k resp)
  show ?thesis
  proof (cases "k < length (inflight s)")
    case False
    with assms Respond show ?thesis by (simp add: respond_def)
  next
    case True
    define s' where "s' = s\<lparr>inflight := take k (inflight s) @ drop (Suc k) (inflight s)\<rparr>"
    have inv': "registered s' = map fst (notified s') @ refreshSubscribers s'"
      using assms by (simp add: s'_def)
    have res: "registered (resolved w d s') = map fst (notified (resolved w d s')) @ refreshSubscribers (resolved w d s')" for w d
      using inv'
      by (cases w) (auto simp: settle_def clearTokens_def refresh_then_fields refresh_catch_fields comp_def
          dest!: refreshToken_resume_frame split: prod.splits sum.splits)
    have rej: "registered (response_rejected r e s') = map fst (notified (response_rejected r e s')) @ refreshSubscribers (response_rejected r e s')" for r e
      using inv'
      by (cases "req_waiter r")
        (auto simp: response_rejected_def reject_def settle_def clearTokens_def refreshToken_def post_def client_def
          subscribeTokenRefresh_def refresh_catch_fields Let_def comp_def
          split: prod.splits sum.splits option.splits if_splits)
    from True Respond show ?thesis
      using res rej by (simp add: respond_def Let_def s'_def split: response.splits)
  qed
qed

lemma registered_run:
  "registered (run evs (init st)) = map fst (notified (run evs (init st))) @ refreshSubscribers (run evs (init st))"
  by (rule run_invariant) (simp_all add: init_def registered_step)

lemma auto_requests_remove:
  assumes "k < length rs"
  shows "auto_requests rs =
     auto_requests (take k rs @ drop (Suc k) rs) + (if req_waiter (rs ! k) = AutoRefresh then 1 else 0)"
proof -
  have "rs = take k rs @ rs ! k # drop (Suc k) rs"
    using assms by (simp add: id_take_nth_drop)
  then have "auto_requests rs = auto_requests (take k rs @ rs ! k # drop (Suc k) rs)"
    by simp
  then show ?thesis by (simp add: auto_requests_def)
qed

lemma auto_requests_append: "auto_requests (xs @ ys) = auto_requests xs + auto_requests ys"
  by (simp add: auto_requests_def)


lemma auto_parked_Nil [simp]: "auto_parked [] = 0"
  by (simp add: auto_parked_def)





lemma run_append: "run (xs @ ys) s = run ys (run xs s)"
  by (simp add: run_def)

lemma run_Cons: "run (e # es) s = run es (step e s)"
  by (simp add: run_def)

lemma run_Nil: "run [] s = s"
  by (simp add: run_def)

lemma respond_nth:
  assumes "inflight s = others @ r # rest"
  shows "respond (length others) resp s =
     (case resp of
        Response status d \<Rightarrow>
          if 200 \<le> status \<and> status < 300 then resolved (req_waiter r) d (s\<lparr>inflight := others @ rest\<rparr>)
          else response_rejected r (HttpError status) (s\<lparr>inflight := others @ rest\<rparr>)
      | NoResponse \<Rightarrow> response_rejected r NetworkError (s\<lparr>inflight := others @ rest\<rparr>))"
  by (simp add: respond_def assms Let_def nth_append)

lemma first_401:
  assumes "\<not> isRefreshing s" and "getItem (localStorage s) ''refresh_token'' = Some rt" and "rt \<noteq> []"
    and "inflight s = others @ r # rest" and "\<not> retry (req_config r)"
  shows "respond (length others) (Response 401 d) s =
     s\<lparr>isRefreshing := True,
       refreshSubscribers := refreshSubscribers s @ [pending_caller r],
       inflight := others @ rest @ [refresh_exchange (localStorage s) rt],
       sent := sent s @ [refresh_exchange (localStorage s) rt],
       registered := registered s @ [pending_caller r]\<rparr>"
  using assms
  by (simp add: respond_nth [OF assms(4)] response_rejected_def refreshToken_def post_def client_def
      subscribeTokenRefresh_def refresh_exchange_def)

lemma join_401s:
  assumes "isRefreshing s" and "inflight s = others @ reqs @ rest"
    and "list_all (\<lambda>r. \<not> retry (req_config r)) reqs" and "length ds = length reqs"
  shows "run (map (\<lambda>d. Respond (length others) (Response 401 d)) ds) s =
     s\<lparr>refreshSubscribers := refreshSubscribers s @ map pending_caller reqs,
       inflight := others @ rest,
       registered := registered s @ map pending_caller reqs\<rparr>"
  using assms
proof (induction reqs arbitrary: ds s)
  case Nil
  then show ?case by (simp add: run_Nil)
next
  case (Cons r reqs)
  then obtain d ds' where ds: "ds = d # ds'" by (cases ds) auto
  have infl: "inflight s = others @ r # (reqs @ rest)" using Cons.prems by simp
  have st: "respond (length others) (Response 401 d) s =
      s\<lparr>refreshSubscribers := refreshSubscribers s @ [pending_caller r],
        inflight := others @ reqs @ rest,
        registered := registered s @ [pending_caller r]\<rparr>"
    using Cons.prems
    by (simp add: respond_nth [OF infl] response_rejected_def subscribeTokenRefresh_def)
  show ?case
    using Cons.prems ds
    by (simp add: run_Cons st Cons.IH [where ds = ds'])
qed

lemma signed_fresh_token:
  "signed (setItem ''refresh_token'' r (setItem ''access_token'' a st))
     ((sub_config sub)\<lparr>Authorization := Some (''Bearer '' @ a)\<rparr>) (sub_waiter sub) = retried a sub"
  by (simp add: signed_def retried_def request_interceptor_def getItem_def setItem_def)

lemma string_field_Some:
  "string_field d k = Some t \<Longrightarrow> d \<noteq> JNull \<and> field d k = Some (JStr t)"
  by (cases d) (auto simp: string_field_def split: option.splits jvalue.splits)

lemma exchange_answered:
  assumes "inflight s = others @ x # rest" and "req_waiter x = AutoRefresh"
    and "200 \<le> status \<and> status < 300" and "d \<noteq> JNull"
    and "field d ''access_token'' = Some av" and "field d ''refresh_token'' = Some rv"
    and "truthy av" and "truthy rv"
  shows "respond (length others) (Response status d) s =
     s\<lparr>localStorage :=
         setItem ''refresh_token'' (to_string rv) (setItem ''access_token'' (to_string av) (localStorage s)),
       isRefreshing := False,
       refreshSubscribers := [],
       inflight := others @ rest @ map (retried (to_string av)) (refreshSubscribers s),
       sent := sent s @ map (retried (to_string av)) (refreshSubscribers s),
       notified := notified s @ map (\<lambda>sub. (sub, Inr (to_string av))) (refreshSubscribers s)\<rparr>"
proof -
  have "refreshToken_resume d (s\<lparr>inflight := others @ rest\<rparr>) =
      (Inr (to_string av), s\<lparr>inflight := others @ rest,
         localStorage :=
           setItem ''refresh_token'' (to_string rv) (setItem ''access_token'' (to_string av) (localStorage s))\<rparr>)"
    using assms(4-8) by (simp add: refreshToken_resume_def)
  then show ?thesis
    using assms(2,3)
    by (simp add: respond_nth [OF assms(1)] refresh_then_def onRefreshed_def fold_onSuccess
        signed_fresh_token [simplified])
qed

lemma exchange_success:
  assumes "inflight s = others @ x # rest" and "req_waiter x = AutoRefresh"
    and "200 \<le> status \<and> status < 300"
    and "string_field d ''access_token'' = Some a" and "string_field d ''refresh_token'' = Some r"
    and "a \<noteq> []" and "r \<noteq> []"
  shows "respond (length others) (Response status d) s =
     s\<lparr>localStorage := setItem ''refresh_token'' r (setItem ''access_token'' a (localStorage s)),
       isRefreshing := False,
       refreshSubscribers := [],
       inflight := others @ rest @ map (retried a) (refreshSubscribers s),
       sent := sent s @ map (retried a) (refreshSubscribers s),
       notified := notified s @ map (\<lambda>sub. (sub, Inr a)) (refreshSubscribers s)\<rparr>"
proof -
  from string_field_Some [OF assms(4)] string_field_Some [OF assms(5)]
  have "d \<noteq> JNull" and "field d ''access_token'' = Some (JStr a)"
    and "field d ''refresh_token'' = Some (JStr r)"
    by simp_all
  moreover have "truthy (JStr a)" and "truthy (JStr r)"
    using assms(6,7) by simp_all
  ultimately show ?thesis
    using exchange_answered [OF assms(1-3), where av = "JStr a" and rv = "JStr r"] by simp
qed

lemma settle_retried:
  assumes "inflight s = others @ rs @ rest"
    and "list_all (\<lambda>r. is_caller (req_waiter r) \<and> retry (req_config r)) rs"
    and "length resps = length rs"
  shows "run (map (Respond (length others)) resps) s =
     s\<lparr>inflight := others @ rest,
       settled := settled s @ map (\<lambda>(r, resp). (req_waiter r, transport_outcome resp)) (zip rs resps)\<rparr>"
  using assms
proof (induction rs arbitrary: resps s)
  case Nil
  then show ?case by (simp add: run_Nil)
next
  case (Cons r rs)
  then obtain resp resps' where resps: "resps = resp # resps'" by (cases resps) auto
  from Cons.prems obtain c where w: "req_waiter r = Caller c" by (cases "req_waiter r") auto
  have infl: "inflight s = others @ r # (rs @ rest)" using Cons.prems by simp
  have st: "respond (length others) resp s =
      s\<lparr>inflight := others @ rs @ rest,
        settled := settled s @ [(req_waiter r, transport_outcome resp)]\<rparr>"
    using Cons.prems w
    by (cases resp)
      (simp_all add: respond_nth [OF infl] response_rejected_def reject_def settle_def)
  show ?case
    using Cons.prems resps
    by (simp add: run_Cons st Cons.IH [where resps = resps'])
qed

lemma exchange_failure:
  assumes "inflight s = others @ x # rest" and "req_waiter x = AutoRefresh"
    and "exchange_error resp = Some e" and "e \<noteq> HttpError 401"
    and "list_all (\<lambda>sub. is_caller (sub_waiter sub)) (refreshSubscribers s)"
  shows "respond (length others) resp s =
     s\<lparr>localStorage := removeItem ''refresh_token'' (removeItem ''access_token'' (localStorage s)),
       isRefreshing := False,
       refreshSubscribers := [],
       inflight := others @ rest,
       notified := notified s @ map (\<lambda>sub. (sub, Inl e)) (refreshSubscribers s),
       settled := settled s @ map (\<lambda>sub. (sub_waiter sub, Inl e)) (refreshSubscribers s)\<rparr>"
proof -
  have catch: "refresh_catch e (s\<lparr>inflight := others @ rest\<rparr>) =
     s\<lparr>localStorage := removeItem ''refresh_token'' (removeItem ''access_token'' (localStorage s)),
       isRefreshing := False,
       refreshSubscribers := [],
       inflight := others @ rest,
       notified := notified s @ map (\<lambda>sub. (sub, Inl e)) (refreshSubscribers s),
       settled := settled s @ map (\<lambda>sub. (sub_waiter sub, Inl e)) (refreshSubscribers s)\<rparr>"
    using assms(5)
    by (simp add: refresh_catch_def onRefreshFailed_def clearTokens_def fold_onError_callers)
  show ?thesis
  proof (cases resp)
    case NoResponse
    with assms catch show ?thesis
      by (simp add: respond_nth [OF assms(1)] response_rejected_def reject_def)
  next
    case (Response status d)
    show ?thesis
    proof (cases "200 \<le> status \<and> status < 300")
      case False
      then have "respond (length others) resp s =
          response_rejected x (HttpError status) (s\<lparr>inflight := others @ rest\<rparr>)"
        using Response by (auto simp: respond_nth [OF assms(1)])
      moreover have "e = HttpError status"
        using False assms(3) Response by auto
      ultimately show ?thesis
        using assms(2,4) catch by (simp add: response_rejected_def reject_def)
    next
      case True
      with assms(3) Response
      have "refreshToken_resume d (s\<lparr>inflight := others @ rest\<rparr>) = (Inl e, s\<lparr>inflight := others @ rest\<rparr>)"
        by (auto simp: refreshToken_resume_def split: option.splits if_splits)
      with True assms Response catch show ?thesis
        by (simp add: respond_nth [OF assms(1)])
    qed
  qed
qed

lemma all_401s:
  assumes "\<not> isRefreshing s" and "refreshSubscribers s = []"
    and "getItem (localStorage s) ''refresh_token'' = Some rt" and "rt \<noteq> []"
    and "inflight s = others @ reqs" and "reqs \<noteq> []"
    and "list_all (\<lambda>r. is_caller (req_waiter r) \<and> \<not> retry (req_config r)) reqs"
    and "length ds = length reqs"
  shows "run (map (\<lambda>d. Respond (length others) (Response 401 d)) ds) s =
     s\<lparr>isRefreshing := True,
       refreshSubscribers := map pending_caller reqs,
       inflight := others @ [refresh_exchange (localStorage s) rt],
       sent := sent s @ [refresh_exchange (localStorage s) rt],
       registered := registered s @ map pending_caller reqs\<rparr>"
proof -
  from assms(6,8) obtain r0 rest d0 ds' where reqs: "reqs = r0 # rest" and ds: "ds = d0 # ds'"
    by (cases reqs; cases ds) auto
  define s1 where "s1 = respond (length others) (Response 401 d0) s"
  have s1: "s1 = s\<lparr>isRefreshing := True,
       refreshSubscribers := [pending_caller r0],
       inflight := others @ rest @ [refresh_exchange (localStorage s) rt],
       sent := sent s @ [refresh_exchange (localStorage s) rt],
       registered := registered s @ [pending_caller r0]\<rparr>"
    unfolding s1_def using assms(1-5,7) reqs
    by (simp add: first_401 [where rt = rt and r = r0 and rest = rest])
  have "run (map (\<lambda>d. Respond (length others) (Response 401 d)) ds') s1 =
     s1\<lparr>refreshSubscribers := refreshSubscribers s1 @ map pending_caller rest,
       inflight := others @ [refresh_exchange (localStorage s) rt],
       registered := registered s1 @ map pending_caller rest\<rparr>"
    using assms(7,8) reqs ds
    by (intro join_401s) (simp_all add: s1 list_all_iff)
  then show ?thesis
    by (simp add: ds reqs run_Cons s1_def [symmetric]) (simp add: s1)
qed

lemma retried_pending:
  "list_all (\<lambda>r. is_caller (req_waiter r) \<and> \<not> retry (req_config r)) reqs \<Longrightarrow>
   list_all (\<lambda>r. is_caller (req_waiter r) \<and> retry (req_config r))
     (map (retried a) (map pending_caller reqs))"
  by (induction reqs) (simp_all add: retried_def pending_caller_def)

lemma pending_callers:
  "list_all (\<lambda>r. is_caller (req_waiter r) \<and> \<not> retry (req_config r)) reqs \<Longrightarrow>
   list_all (\<lambda>sub. is_caller (sub_waiter sub)) (map pending_caller reqs)"
  by (induction reqs) (simp_all add: pending_caller_def)

lemma zip_retried:
  "map (\<lambda>(r, resp). (req_waiter r, transport_outcome resp))
     (zip (map (retried a) (map pending_caller reqs)) resps) =
   map (\<lambda>(r, resp). (req_waiter r, transport_outcome resp)) (zip reqs resps)"
  by (induction reqs arbitrary: resps)
    (simp_all add: retried_def pending_caller_def split: list.splits, case_tac resps, simp_all add: retried_def pending_caller_def)

lemma parked_step:
  assumes "isRefreshing s" and "auto_requests (inflight s) = 0"
  shows "isRefreshing (step ev s) \<and> auto_requests (inflight (step ev s)) = 0 \<and>
         notified (step ev s) = notified s \<and>
         (\<exists>more. refreshSubscribers (step ev s) = refreshSubscribers s @ more)"
proof (cases ev)
  case (Call c u b)
  with assms show ?thesis
    by (simp add: post_def client_def auto_requests_append auto_requests_def signed_def)
next
  case (LogoutCall l)
  with assms show ?thesis
    by (simp add: logout_def post_def client_def auto_requests_append auto_requests_def signed_def)
next
  case (ManualRefreshCall m)
  with assms show ?thesis
    by (auto simp: manualRefreshToken_def refreshToken_def post_def client_def settle_def
        clearTokens_def auto_requests_def signed_def split: option.splits if_splits)
next
  case (Respond k resp)
  show ?thesis
  proof (cases "k < length (inflight s)")
    case False
    with assms Respond show ?thesis by (simp add: respond_def)
  next
    case True
    define r where "r = inflight s ! k"
    define s' where "s' = s\<lparr>inflight := take k (inflight s) @ drop (Suc k) (inflight s)\<rparr>"
    have cnt: "auto_requests (inflight s') = 0" "req_waiter r \<noteq> AutoRefresh" "isRefreshing s'"
      "notified s' = notified s" "refreshSubscribers s' = refreshSubscribers s"
      using assms auto_requests_remove [OF True] by (auto simp: s'_def r_def split: if_splits)
    have res: "isRefreshing (resolved (req_waiter r) d s') \<and> auto_requests (inflight (resolved (req_waiter r) d s')) = 0 \<and>
         notified (resolved (req_waiter r) d s') = notified s \<and>
         (\<exists>more. refreshSubscribers (resolved (req_waiter r) d s') = refreshSubscribers s @ more)" for d
      using cnt
      by (cases "req_waiter r")
        (auto simp: settle_def clearTokens_def
          dest!: refreshToken_resume_frame split: prod.splits sum.splits if_splits)
    have rej: "isRefreshing (response_rejected r e s') \<and> auto_requests (inflight (response_rejected r e s')) = 0 \<and>
         notified (response_rejected r e s') = notified s \<and>
         (\<exists>more. refreshSubscribers (response_rejected r e s') = refreshSubscribers s @ more)" for e
      using cnt
      by (cases "req_waiter r")
        (auto simp: response_rejected_def reject_def settle_def clearTokens_def
          subscribeTokenRefresh_def Let_def
          split: prod.splits sum.splits option.splits if_splits)
    from True Respond show ?thesis
      using res rej by (simp add: respond_def Let_def s'_def r_def split: response.splits)
  qed
qed

lemma parked_run:
  assumes "isRefreshing s" and "auto_requests (inflight s) = 0"
  shows "isRefreshing (run evs s) \<and> auto_requests (inflight (run evs s)) = 0 \<and>
         notified (run evs s) = notified s \<and>
         (\<exists>more. refreshSubscribers (run evs s) = refreshSubscribers s @ more)"
  using assms
proof (induction evs arbitrary: s)
  case Nil
  then show ?case by (simp add: run_Nil)
next
  case (Cons ev evs)
  note st = parked_step [OF Cons.prems, of ev]
  from st have a: "isRefreshing (step ev s)" and b: "auto_requests (inflight (step ev s)) = 0"
    by simp_all
  note ih = Cons.IH [OF a b]
  from st ih show ?case by (auto simp: run_Cons)
qed

lemma refresh_scenario:
  assumes "\<not> isRefreshing s" and "refreshSubscribers s = []"
    and "getItem (localStorage s) ''refresh_token'' = Some rt" and "rt \<noteq> []"
    and "inflight s = others @ reqs" and "reqs \<noteq> []"
    and "list_all (\<lambda>r. is_caller (req_waiter r) \<and> \<not> retry (req_config r)) reqs"
    and "length ds = length reqs"
  shows
    "run (map (\<lambda>d. Respond (length others) (Response 401 d)) ds) s =
       s\<lparr>isRefreshing := True,
         refreshSubscribers := map pending_caller reqs,
         inflight := others @ [refresh_exchange (localStorage s) rt],
         sent := sent s @ [refresh_exchange (localStorage s) rt],
         registered := registered s @ map pending_caller reqs\<rparr> \<and>
     (\<forall>status d a r resps.
        200 \<le> status \<and> status < 300 \<and>
        string_field d ''access_token'' = Some a \<and> string_field d ''refresh_token'' = Some r \<and>
        a \<noteq> [] \<and> r \<noteq> [] \<and> length resps = length reqs \<longrightarrow>
        run (map (\<lambda>d. Respond (length others) (Response 401 d)) ds @
             Respond (length others) (Response status d) #
             map (Respond (length others)) resps) s =
          s\<lparr>localStorage := setItem ''refresh_token'' r (setItem ''access_token'' a (localStorage s)),
            isRefreshing := False,
            refreshSubscribers := [],
            inflight := others,
            sent := sent s @ refresh_exchange (localStorage s) rt #
                    map (retried a) (map pending_caller reqs),
            registered := registered s @ map pending_caller reqs,
            notified := notified s @ map (\<lambda>sub. (sub, Inr a)) (map pending_caller reqs),
            settled := settled s @
              map (\<lambda>(r, resp). (req_waiter r, transport_outcome resp)) (zip reqs resps)\<rparr>) \<and>
     (\<forall>resp e.
        exchange_error resp = Some e \<and> e \<noteq> HttpError 401 \<longrightarrow>
        run (map (\<lambda>d. Respond (length others) (Response 401 d)) ds @
             [Respond (length others) resp]) s =
          s\<lparr>localStorage := removeItem ''refresh_token'' (removeItem ''access_token'' (localStorage s)),
            isRefreshing := False,
            refreshSubscribers := [],
            inflight := others,
            sent := sent s @ [refresh_exchange (localStorage s) rt],
            registered := registered s @ map pending_caller reqs,
            notified := notified s @ map (\<lambda>sub. (sub, Inl e)) (map pending_caller reqs),
            settled := settled s @ map (\<lambda>r. (req_waiter r, Inl e)) reqs\<rparr>)"
proof -
  define n where "n = length others"
  define x where "x = refresh_exchange (localStorage s) rt"
  define s1 where "s1 = run (map (\<lambda>d. Respond n (Response 401 d)) ds) s"
  have s1: "s1 = s\<lparr>isRefreshing := True,
         refreshSubscribers := map pending_caller reqs,
         inflight := others @ [x],
         sent := sent s @ [x],
         registered := registered s @ map pending_caller reqs\<rparr>"
    unfolding s1_def n_def x_def by (rule all_401s [OF assms])
  have xw: "req_waiter x = AutoRefresh"
    by (simp add: x_def refresh_exchange_def signed_def)
  have infl1: "inflight s1 = others @ x # []"
    by (simp add: s1)
  have ok: "run (Respond n (Response status d) # map (Respond n) resps) s1 =
          s\<lparr>localStorage := setItem ''refresh_token'' r (setItem ''access_token'' a (localStorage s)),
            isRefreshing := False,
            refreshSubscribers := [],
            inflight := others,
            sent := sent s @ x # map (retried a) (map pending_caller reqs),
            registered := registered s @ map pending_caller reqs,
            notified := notified s @ map (\<lambda>sub. (sub, Inr a)) (map pending_caller reqs),
            settled := settled s @
              map (\<lambda>(r, resp). (req_waiter r, transport_outcome resp)) (zip reqs resps)\<rparr>"
    if h: "200 \<le> status \<and> status < 300" "string_field d ''access_token'' = Some a"
      "string_field d ''refresh_token'' = Some r" "a \<noteq> []" "r \<noteq> []" "length resps = length reqs"
    for status d a r resps
  proof -
    define s2 where "s2 = respond n (Response status d) s1"
    have s2: "s2 = s1\<lparr>localStorage := setItem ''refresh_token'' r (setItem ''access_token'' a (localStorage s1)),
       isRefreshing := False,
       refreshSubscribers := [],
       inflight := others @ [] @ map (retried a) (refreshSubscribers s1),
       sent := sent s1 @ map (retried a) (refreshSubscribers s1),
       notified := notified s1 @ map (\<lambda>sub. (sub, Inr a)) (refreshSubscribers s1)\<rparr>"
      unfolding s2_def n_def
      by (rule exchange_success [OF infl1 xw h(1-5)])
    have infl2: "inflight s2 = others @ map (retried a) (map pending_caller reqs) @ []"
      by (simp add: s2 s1)
    have fin: "run (map (Respond n) resps) s2 =
       s2\<lparr>inflight := others @ [],
         settled := settled s2 @ map (\<lambda>(r, resp). (req_waiter r, transport_outcome resp))
            (zip (map (retried a) (map pending_caller reqs)) resps)\<rparr>"
      unfolding n_def
      by (rule settle_retried [OF infl2 retried_pending [OF assms(7)]]) (simp add: h(6))
    have "run (Respond n (Response status d) # map (Respond n) resps) s1 =
        run (map (Respond n) resps) s2"
      by (simp add: run_Cons s2_def)
    also have "\<dots> = s2\<lparr>inflight := others @ [],
         settled := settled s2 @ map (\<lambda>(r, resp). (req_waiter r, transport_outcome resp))
            (zip reqs resps)\<rparr>"
      using fin unfolding zip_retried .
    also have "\<dots> = s\<lparr>localStorage := setItem ''refresh_token'' r (setItem ''access_token'' a (localStorage s)),
            isRefreshing := False,
            refreshSubscribers := [],
            inflight := others,
            sent := sent s @ x # map (retried a) (map pending_caller reqs),
            registered := registered s @ map pending_caller reqs,
            notified := notified s @ map (\<lambda>sub. (sub, Inr a)) (map pending_caller reqs),
            settled := settled s @
              map (\<lambda>(r, resp). (req_waiter r, transport_outcome resp)) (zip reqs resps)\<rparr>"
      by (simp add: s2 s1)
    finally show ?thesis .
  qed
  have bad: "run [Respond n resp] s1 =
          s\<lparr>localStorage := removeItem ''refresh_token'' (removeItem ''access_token'' (localStorage s)),
            isRefreshing := False,
            refreshSubscribers := [],
            inflight := others,
            sent := sent s @ [x],
            registered := registered s @ map pending_caller reqs,
            notified := notified s @ map (\<lambda>sub. (sub, Inl e)) (map pending_caller reqs),
            settled := settled s @ map (\<lambda>r. (req_waiter r, Inl e)) reqs\<rparr>"
    if h: "exchange_error resp = Some e" "e \<noteq> HttpError 401" for resp e
  proof -
    have subs: "list_all (\<lambda>sub. is_caller (sub_waiter sub)) (refreshSubscribers s1)"
      using pending_callers [OF assms(7)] by (simp add: s1)
    have "respond n resp s1 =
     s1\<lparr>localStorage := removeItem ''refresh_token'' (removeItem ''access_token'' (localStorage s1)),
       isRefreshing := False,
       refreshSubscribers := [],
       inflight := others @ [],
       notified := notified s1 @ map (\<lambda>sub. (sub, Inl e)) (refreshSubscribers s1),
       settled := settled s1 @ map (\<lambda>sub. (sub_waiter sub, Inl e)) (refreshSubscribers s1)\<rparr>"
      unfolding n_def by (rule exchange_failure [OF infl1 xw h subs])
    then show ?thesis
      by (simp add: run_Cons run_Nil s1 comp_def pending_caller_def)
  qed
  show ?thesis
    using s1 ok bad
    unfolding s1_def n_def x_def run_append by blast
qed

lemma registered_grows:
  "registered (step ev s) = registered s \<or>
   (\<exists>r. registered (step ev s) = registered s @ [pending_caller r])"
proof (cases ev)
  case (Call c u b)
  then show ?thesis by (simp add: post_def client_def)
next
  case (LogoutCall l)
  then show ?thesis by (simp add: logout_def post_def client_def)
next
  case (ManualRefreshCall m)
  then show ?thesis
    by (simp add: manualRefreshToken_def refreshToken_def post_def client_def settle_def clearTokens_def
        split: option.splits)
next
  case (Respond k resp)
  show ?thesis
  proof (cases "k < length (inflight s)")
    case False
    with Respond show ?thesis by (simp add: respond_def)
  next
    case True
    define s' where "s' = s\<lparr>inflight := take k (inflight s) @ drop (Suc k) (inflight s)\<rparr>"
    have res: "registered (resolved w d s') = registered s" for w d
      by (cases w)
        (auto simp: s'_def settle_def clearTokens_def refresh_then_fields refresh_catch_fields
          dest!: refreshToken_resume_frame split: prod.splits sum.splits)
    have rej: "registered (response_rejected r e s') = registered s \<or>
        registered (response_rejected r e s') = registered s @ [pending_caller r]" for r e
      by (cases "req_waiter r")
        (auto simp: s'_def response_rejected_def reject_def settle_def clearTokens_def refreshToken_def
          post_def client_def subscribeTokenRefresh_def refresh_catch_fields Let_def
          split: prod.splits sum.splits option.splits if_splits)
    show ?thesis
    proof (cases resp)
      case NoResponse
      with True Respond rej [of "inflight s ! k" NetworkError] show ?thesis
        by (auto simp: respond_def Let_def s'_def)
    next
      case (Response status d)
      with True Respond rej [of "inflight s ! k" "HttpError status"]
        res [of "req_waiter (inflight s ! k)" d]
      show ?thesis
        by (auto simp: respond_def Let_def s'_def)
    qed
  qed
qed

lemma registered_marked_step:
  assumes "list_all (\<lambda>sub. retry (sub_config sub)) (registered s)"
  shows "list_all (\<lambda>sub. retry (sub_config sub)) (registered (step ev s))"
  using assms registered_grows [of ev s] by (auto simp: pending_caller_def)

lemma registered_marked_run:
  "list_all (\<lambda>sub. retry (sub_config sub)) (registered (run evs (init st)))"
  by (rule run_invariant) (simp_all add: init_def registered_marked_step)

lemma respond_at:
  assumes "k < length (inflight s)"
  shows "inflight s = take k (inflight s) @ inflight s ! k # drop (Suc k) (inflight s)"
    and "length (take k (inflight s)) = k"
  using assms by (simp_all add: id_take_nth_drop)

lemma logout_settled_clears:
  assumes "k < length (inflight s)" and "req_waiter (inflight s ! k) = Logout l"
    and "(\<forall>d. resp \<noteq> Response 401 d) \<or> retry (req_config (inflight s ! k))"
  shows "getItem (localStorage (respond k resp s)) ''access_token'' = None \<and>
         getItem (localStorage (respond k resp s)) ''refresh_token'' = None \<and>
         settled (respond k resp s) = settled s @ [(Logout l, Inr (Str ''Logout successful''))]"
  using assms
  by (cases resp)
    (auto simp: respond_def response_rejected_def reject_def settle_def clearTokens_def
      getItem_def removeItem_def Let_def)

lemma manual_refresh_frame:
  "isRefreshing (manualRefreshToken m s) = isRefreshing s \<and>
   refreshSubscribers (manualRefreshToken m s) = refreshSubscribers s \<and>
   registered (manualRefreshToken m s) = registered s \<and>
   notified (manualRefreshToken m s) = notified s"
  by (simp add: manualRefreshToken_def refreshToken_def post_def client_def settle_def clearTokens_def
      split: option.splits)

lemma manual_refresh_answer_frame:
  assumes "k < length (inflight s)" and "req_waiter (inflight s ! k) = ManualRefresh m"
    and "(\<forall>d. resp \<noteq> Response 401 d) \<or> retry (req_config (inflight s ! k))"
  shows "isRefreshing (respond k resp s) = isRefreshing s \<and>
         refreshSubscribers (respond k resp s) = refreshSubscribers s \<and>
         registered (respond k resp s) = registered s \<and>
         notified (respond k resp s) = notified s"
  using assms
  by (cases resp)
    (auto simp: respond_def response_rejected_def reject_def settle_def clearTokens_def Let_def
      dest!: refreshToken_resume_frame split: prod.splits sum.splits)

text \<open>
  Requests answered at any positions of the network and in any order.
\<close>

lemma in_range_map [simp]: "in_range ks (map f xs) = in_range ks xs"
  by (induction ks arbitrary: xs) (simp_all add: take_map drop_map flip: map_append)


lemma remaining_map: "remaining ks (map f xs) = map f (remaining ks xs)"
  by (induction ks arbitrary: xs) (simp_all add: take_map drop_map flip: map_append)



lemma length_answered [simp]: "length (answered ks xs) = length ks"
  by (induction ks arbitrary: xs) simp_all










section \<open>Request signer\<close>

text \<open>
  A stored access token that is the empty string is falsy for the test of line 57: the
  request leaves without an \<^verbatim>\<open>Authorization\<close> header although the store holds a token.
\<close>

theorem request_interceptor_empty_token:
  "getItem [''access_token'' \<mapsto> []] ''access_token'' = Some [] \<and>
   Authorization (request_interceptor [''access_token'' \<mapsto> []]
      \<lparr>url = ''/auth/profile'', body = JNull, Authorization = None, retry = False\<rparr>)
     \<noteq> Some (''Bearer '' @ [])"
  by (simp add: request_interceptor_def getItem_def)

text \<open>
  Claim C6, amended. The signer reads the access token from the store. A non-empty token
  is attached as \<^verbatim>\<open>Authorization: Bearer <token>\<close>; with no token, or with an empty one,
  the configuration leaves the signer as it came, so nothing is attached. Sending a
  request reads the store and changes neither the store nor the refresh state; it only
  puts the signed request on the network.
\<close>

theorem request_interceptor_signs:
  "(\<forall>token. getItem st ''access_token'' = Some token \<and> token \<noteq> [] \<longrightarrow>
       request_interceptor st c = c\<lparr>Authorization := Some (''Bearer '' @ token)\<rparr>) \<and>
   (getItem st ''access_token'' = None \<or> getItem st ''access_token'' = Some [] \<longrightarrow>
       request_interceptor st c = c) \<and>
   localStorage (client c w s) = localStorage s \<and>
   isRefreshing (client c w s) = isRefreshing s \<and>
   refreshSubscribers (client c w s) = refreshSubscribers s \<and>
   inflight (client c w s) =
     inflight s @ [\<lparr>req_config = request_interceptor (localStorage s) c, req_waiter = w\<rparr>]"
  by (auto simp: request_interceptor_def client_def signed_def)

theorem request_interceptor_signs_witness:
  "request_interceptor [''access_token'' \<mapsto> ''at1'']
     \<lparr>url = ''/auth/profile'', body = JNull, Authorization = None, retry = False\<rparr> =
     \<lparr>url = ''/auth/profile'', body = JNull, Authorization = Some ''Bearer at1'', retry = False\<rparr> \<and>
   request_interceptor Map.empty
     \<lparr>url = ''/auth/profile'', body = JNull, Authorization = None, retry = False\<rparr> =
     \<lparr>url = ''/auth/profile'', body = JNull, Authorization = None, retry = False\<rparr>"
  using request_interceptor_signs [of "[''access_token'' \<mapsto> ''at1'']"
      "\<lparr>url = ''/auth/profile'', body = JNull, Authorization = None, retry = False\<rparr>"]
    request_interceptor_signs [of Map.empty
      "\<lparr>url = ''/auth/profile'', body = JNull, Authorization = None, retry = False\<rparr>"]
  by (simp add: getItem_def)

section \<open>Responses that are not an authentication failure\<close>

text \<open>
  Claim C5. A request awaited by an API-surface call and answered with a success status,
  with an error status other than 401, or not answered at all (network error), is taken
  off the network and its outcome is handed to the caller as it is. Nothing else changes:
  no refresh is started, no request is sent and no subscriber is registered.
\<close>

theorem passthrough_unchanged:
  assumes "k < length (inflight s)" and "req_waiter (inflight s ! k) = Caller c"
  shows "(200 \<le> status \<and> status < 300 \<longrightarrow>
            respond k (Response status d) s =
              s\<lparr>inflight := take k (inflight s) @ drop (Suc k) (inflight s),
                settled := settled s @ [(Caller c, Inr (Data d))]\<rparr>) \<and>
         (\<not> (200 \<le> status \<and> status < 300) \<and> status \<noteq> 401 \<longrightarrow>
            respond k (Response status d) s =
              s\<lparr>inflight := take k (inflight s) @ drop (Suc k) (inflight s),
                settled := settled s @ [(Caller c, Inl (HttpError status))]\<rparr>) \<and>
         respond k NoResponse s =
              s\<lparr>inflight := take k (inflight s) @ drop (Suc k) (inflight s),
                settled := settled s @ [(Caller c, Inl NetworkError)]\<rparr>"
  using assms
  by (simp add: respond_def response_rejected_def reject_def settle_def Let_def)

theorem passthrough_unchanged_witness:
  "respond 0 (Response 500 (JStr ''oops'')) (step (Call 7 ''/auth/profile'' JNull) (init Map.empty)) =
     (step (Call 7 ''/auth/profile'' JNull) (init Map.empty))
       \<lparr>inflight := [], settled := [(Caller 7, Inl (HttpError 500))]\<rparr> \<and>
   respond 0 (Response 200 (JStr ''me'')) (step (Call 7 ''/auth/profile'' JNull) (init Map.empty)) =
     (step (Call 7 ''/auth/profile'' JNull) (init Map.empty))
       \<lparr>inflight := [], settled := [(Caller 7, Inr (Data (JStr ''me'')))]\<rparr>"
  using passthrough_unchanged [of 0 "step (Call 7 ''/auth/profile'' JNull) (init Map.empty)" 7 500 "JStr ''oops''"]
    passthrough_unchanged [of 0 "step (Call 7 ''/auth/profile'' JNull) (init Map.empty)" 7 200 "JStr ''me''"]
  by (simp add: post_def client_def signed_def init_def)

section \<open>Validation in the API surface\<close>

text \<open>
  \<^verbatim>\<open>getUserUsage\<close> takes a required user identifier and does not look at it: with an
  empty identifier the request is sent.
\<close>

theorem getUserUsage_sends_empty_identifier:
  "getUserUsage 0 (Some []) (init Map.empty) =
     Inr ((init Map.empty)
       \<lparr>inflight := [\<lparr>req_config = \<lparr>url = ''/users/usage'', body = JObj [(''userId'', JStr [])],
                                    Authorization = None, retry = False\<rparr>,
                       req_waiter = Caller 0\<rparr>],
        sent := [\<lparr>req_config = \<lparr>url = ''/users/usage'', body = JObj [(''userId'', JStr [])],
                                Authorization = None, retry = False\<rparr>,
                  req_waiter = Caller 0\<rparr>]\<rparr>)"
  by (simp add: getUserUsage_def post_def client_def signed_def request_interceptor_def
      getItem_def init_def user_body_def)

lemma getUserTier_sends_empty_identifier:
  "getUserTier 0 (Some []) (init Map.empty) =
     Inr ((init Map.empty)
       \<lparr>inflight := [\<lparr>req_config = \<lparr>url = ''/users/tier'', body = JObj [(''userId'', JStr [])],
                                    Authorization = None, retry = False\<rparr>,
                       req_waiter = Caller 0\<rparr>],
        sent := [\<lparr>req_config = \<lparr>url = ''/users/tier'', body = JObj [(''userId'', JStr [])],
                                Authorization = None, retry = False\<rparr>,
                  req_waiter = Caller 0\<rparr>]\<rparr>)"
  by (simp add: getUserTier_def post_def client_def signed_def request_interceptor_def
      getItem_def init_def user_body_def)

text \<open>
  Claim C8, amended. Every operation that takes a project identifier
  (\<^verbatim>\<open>getLinksByProjectId\<close>, \<^verbatim>\<open>getProjectById\<close>, \<^verbatim>\<open>getAnalytics\<close>, \<^verbatim>\<open>regenerateApiKey\<close>,
  \<^verbatim>\<open>getAnalyticsBreakdown\<close>) rejects a missing or empty identifier with the error
  \<^verbatim>\<open>Missing projectId\<close> before anything is sent; the state is untouched.
\<close>

theorem projectId_validated:
  assumes "\<not> truthy_string pid"
  shows "getLinksByProjectId c pid inc s = Inl (Error ''Missing projectId'') \<and>
         getProjectById c now pid opts s = Inl (Error ''Missing projectId'') \<and>
         getAnalytics c pid sd ed fs s = Inl (Error ''Missing projectId'') \<and>
         regenerateApiKey c pid s = Inl (Error ''Missing projectId'') \<and>
         getAnalyticsBreakdown c tz (request\<lparr>projectId := pid\<rparr>) s = Inl (Error ''Missing projectId'')"
  using assms
  by (cases pid)
    (auto simp: getLinksByProjectId_def getProjectById_def getAnalytics_def regenerateApiKey_def
      getAnalyticsBreakdown_def breakdown_payload_def)

theorem projectId_validated_witness:
  "\<not> truthy_string (Some []) \<and>
   getLinksByProjectId 0 (Some []) False (init Map.empty) = Inl (Error ''Missing projectId'') \<and>
   regenerateApiKey 0 (Some []) (init Map.empty) = Inl (Error ''Missing projectId'')"
  using projectId_validated [of "Some []" 0 False "init Map.empty"]
  by simp

section \<open>Defaults of the analytics breakdown\<close>

text \<open>
  Claim C10. A request with a non-empty project identifier and dimension and with two
  valid dates passes the validation and is sent. Whenever \<^verbatim>\<open>getAnalyticsBreakdown\<close> sends
  its request, the request is the POST of the payload to \<^verbatim>\<open>/analytics/breakdown\<close>; the
  payload carries limit 50 when the request's limit is absent or 0, and offset 0 when the
  request's offset is absent or 0. In particular a limit of 0 is replaced by 50.
\<close>

theorem breakdown_limit_offset_defaults:
  "(truthy_string (projectId request) \<and> truthy_string (dimension request) \<and>
    startDate request = Some (Date t1) \<and> endDate request = Some (Date t2) \<longrightarrow>
      (\<exists>s'. getAnalyticsBreakdown c tz request s = Inr s')) \<and>
   (getAnalyticsBreakdown c tz request s = Inr s' \<longrightarrow>
      (\<exists>payload. breakdown_payload tz request = Inr payload \<and>
         s' = post ''/analytics/breakdown'' payload (Caller c) s \<and>
         (limit request = None \<or> limit request = Some (Number 0) \<longrightarrow>
            field payload ''limit'' = Some (JNum (Number 50))) \<and>
         (offset request = None \<or> offset request = Some (Number 0) \<longrightarrow>
            field payload ''offset'' = Some (JNum (Number 0)))))"
proof -
  have sends: "\<exists>s'. getAnalyticsBreakdown c tz request s = Inr s'"
    if "truthy_string (projectId request)" "truthy_string (dimension request)"
      "startDate request = Some (Date t1)" "endDate request = Some (Date t2)"
    using that
    by (cases "projectId request"; cases "dimension request")
      (simp_all add: getAnalyticsBreakdown_def breakdown_payload_def)
  have payload: "\<exists>payload. breakdown_payload tz request = Inr payload \<and>
         s' = post ''/analytics/breakdown'' payload (Caller c) s \<and>
         (limit request = None \<or> limit request = Some (Number 0) \<longrightarrow>
            field payload ''limit'' = Some (JNum (Number 50))) \<and>
         (offset request = None \<or> offset request = Some (Number 0) \<longrightarrow>
            field payload ''offset'' = Some (JNum (Number 0)))"
    if "getAnalyticsBreakdown c tz request s = Inr s'"
    using that
    by (auto simp: getAnalyticsBreakdown_def breakdown_payload_def
        split: sum.splits if_splits option.splits)
  from sends payload show ?thesis by blast
qed

theorem breakdown_limit_offset_defaults_witness:
  "getAnalyticsBreakdown 3 ''UTC''
     \<lparr>projectId = Some ''p1'', dimension = Some ''country'', startDate = Some (Date 1000),
       endDate = Some (Date 2000), timezone = None, limit = Some (Number 0), offset = None,
       filters = None\<rparr> (init Map.empty) =
     Inr (post ''/analytics/breakdown''
       (JObj [(''projectId'', JStr ''p1''), (''dimension'', JStr ''country''),
              (''startDate'', JIso 1000), (''endDate'', JIso 2000), (''timezone'', JStr ''UTC''),
              (''limit'', JNum (Number 50)), (''offset'', JNum (Number 0)), (''filters'', JObj [])])
       (Caller 3) (init Map.empty))"
proof -
  let ?request = "\<lparr>projectId = Some ''p1'', dimension = Some ''country'', startDate = Some (Date 1000),
       endDate = Some (Date 2000), timezone = None, limit = Some (Number 0), offset = None,
       filters = None\<rparr>"
  have pre: "truthy_string (projectId ?request) \<and> truthy_string (dimension ?request) \<and>
    startDate ?request = Some (Date 1000) \<and> endDate ?request = Some (Date 2000)"
    by simp
  from breakdown_limit_offset_defaults [of ?request 1000 2000 3 "''UTC''" "init Map.empty",
      THEN conjunct1, rule_format, OF pre]
  obtain s' where sent: "getAnalyticsBreakdown 3 ''UTC'' ?request (init Map.empty) = Inr s'"
    by blast
  from breakdown_limit_offset_defaults [of ?request 1000 2000 3 "''UTC''" "init Map.empty" s',
      THEN conjunct2, rule_format, OF sent]
  obtain payload where p: "breakdown_payload ''UTC'' ?request = Inr payload"
    and s': "s' = post ''/analytics/breakdown'' payload (Caller 3) (init Map.empty)"
    and "field payload ''limit'' = Some (JNum (Number 50))"
    and "field payload ''offset'' = Some (JNum (Number 0))"
    by auto
  from p have "payload = JObj [(''projectId'', JStr ''p1''), (''dimension'', JStr ''country''),
              (''startDate'', JIso 1000), (''endDate'', JIso 2000), (''timezone'', JStr ''UTC''),
              (''limit'', JNum (Number 50)), (''offset'', JNum (Number 0)), (''filters'', JObj [])]"
    by (simp add: breakdown_payload_def)
  with sent s' show ?thesis by simp
qed

section \<open>Single-flight refresh\<close>

lemmas scenario_defs =
  run_def respond_def response_rejected_def reject_def refresh_catch_def refresh_then_def
  onRefreshFailed_def onRefreshed_def onError_def onSuccess_def subscribeTokenRefresh_def
  pending_caller_def refreshToken_def refreshToken_resume_def post_def client_def signed_def
  request_interceptor_def clearTokens_def settle_def logout_def manualRefreshToken_def
  getItem_def setItem_def removeItem_def init_def logged_in_def string_field_def Let_def




section \<open>Notification of pending callers\<close>

text \<open>
  When the answer to the refresh exchange reaches \<^verbatim>\<open>refreshToken()\<close>, every subscriber in
  the list is notified once, in list order, and the list is emptied: with the new access
  token when the answer is a token pair, with the error when the exchange ends with an
  error other than a 401 status. In every run from an initial state, the subscribers
  registered so far are those already notified, once each and in order, followed by those
  still in the list: none is notified twice.
\<close>

lemma exchange_rejected:
  assumes "k < length (inflight s)" and "req_waiter (inflight s ! k) = AutoRefresh"
    and "exchange_error resp = Some e" and "e \<noteq> HttpError 401"
  shows "respond k resp s =
     refresh_catch e (s\<lparr>inflight := take k (inflight s) @ drop (Suc k) (inflight s)\<rparr>)"
proof (cases resp)
  case NoResponse
  with assms show ?thesis
    by (simp add: respond_def response_rejected_def reject_def)
next
  case (Response status d)
  show ?thesis
  proof (cases "200 \<le> status \<and> status < 300")
    case False
    with assms(3) Response have "e = HttpError status"
      by simp
    with assms(4) have "status \<noteq> 401"
      by simp
    with assms(1,2) False Response \<open>e = HttpError status\<close> show ?thesis
      by (auto simp: respond_def response_rejected_def reject_def Let_def)
  next
    case True
    with assms(3) Response
    have "refreshToken_resume d (s\<lparr>inflight := take k (inflight s) @ drop (Suc k) (inflight s)\<rparr>) =
        (Inl e, s\<lparr>inflight := take k (inflight s) @ drop (Suc k) (inflight s)\<rparr>)"
      by (auto simp: refreshToken_resume_def split: option.splits if_splits)
    with assms(1,2) True Response show ?thesis
      by (simp add: respond_def)
  qed
qed

lemma notified_in_registration_order:
  assumes "k < length (inflight s)" and "req_waiter (inflight s ! k) = AutoRefresh"
  shows
    "(200 \<le> status \<and> status < 300 \<and> d \<noteq> JNull \<and>
      field d ''access_token'' = Some av \<and> field d ''refresh_token'' = Some rv \<and>
      truthy av \<and> truthy rv \<longrightarrow>
        notified (respond k (Response status d) s) =
          notified s @ map (\<lambda>sub. (sub, Inr (to_string av))) (refreshSubscribers s) \<and>
        refreshSubscribers (respond k (Response status d) s) = []) \<and>
     (exchange_error resp = Some e \<and> e \<noteq> HttpError 401 \<longrightarrow>
        notified (respond k resp s) =
          notified s @ map (\<lambda>sub. (sub, Inl e)) (refreshSubscribers s) \<and>
        refreshSubscribers (respond k resp s) = []) \<and>
     registered (run evs (init st)) =
       map fst (notified (run evs (init st))) @ refreshSubscribers (run evs (init st))"
proof -
  have "notified (respond k (Response status d) s) =
          notified s @ map (\<lambda>sub. (sub, Inr (to_string av))) (refreshSubscribers s) \<and>
        refreshSubscribers (respond k (Response status d) s) = []"
    if h: "200 \<le> status \<and> status < 300" "d \<noteq> JNull"
      "field d ''access_token'' = Some av" "field d ''refresh_token'' = Some rv"
      "truthy av" "truthy rv"
    using exchange_answered [OF respond_at(1) [OF assms(1)] assms(2) h] respond_at(2) [OF assms(1)]
    by simp
  moreover have "notified (respond k resp s) =
          notified s @ map (\<lambda>sub. (sub, Inl e)) (refreshSubscribers s) \<and>
        refreshSubscribers (respond k resp s) = []"
    if "exchange_error resp = Some e" "e \<noteq> HttpError 401"
    by (simp add: exchange_rejected [OF assms that] refresh_catch_fields)
  ultimately show ?thesis
    by (simp add: registered_run)
qed

text \<open>
  Claim C2, at the failing input. The store holds a token pair, two calls are answered 401
  and the refresh exchange is answered 401 as well. The two calls are registered in the
  subscriber list, and the interceptor registers the exchange behind them instead of
  letting \<^verbatim>\<open>refreshToken()\<close> fail. Nothing is left on the network, and whatever happens
  afterwards the two calls stay in the list and no subscriber is ever notified: they
  receive zero notifications.
\<close>

theorem pending_callers_never_notified:
  "registered (run [Call 1 ''/projects/getUserProjects'' JNull, Call 2 ''/auth/profile'' JNull,
       Respond 0 (Response 401 JNull), Respond 0 (Response 401 JNull),
       Respond 0 (Response 401 JNull)] (init logged_in)) =
     [\<lparr>sub_config = \<lparr>url = ''/projects/getUserProjects'', body = JNull,
                      Authorization = Some ''Bearer at1'', retry = True\<rparr>, sub_waiter = Caller 1\<rparr>,
      \<lparr>sub_config = \<lparr>url = ''/auth/profile'', body = JNull,
                      Authorization = Some ''Bearer at1'', retry = True\<rparr>, sub_waiter = Caller 2\<rparr>,
      \<lparr>sub_config = \<lparr>url = ''/auth/refresh'', body = JObj [(''refresh_token'', JStr ''rt1'')],
                      Authorization = Some ''Bearer at1'', retry = True\<rparr>, sub_waiter = AutoRefresh\<rparr>] \<and>
   inflight (run [Call 1 ''/projects/getUserProjects'' JNull, Call 2 ''/auth/profile'' JNull,
       Respond 0 (Response 401 JNull), Respond 0 (Response 401 JNull),
       Respond 0 (Response 401 JNull)] (init logged_in)) = [] \<and>
   settled (run [Call 1 ''/projects/getUserProjects'' JNull, Call 2 ''/auth/profile'' JNull,
       Respond 0 (Response 401 JNull), Respond 0 (Response 401 JNull),
       Respond 0 (Response 401 JNull)] (init logged_in)) = [] \<and>
   (\<forall>evs.
      notified (run evs (run [Call 1 ''/projects/getUserProjects'' JNull, Call 2 ''/auth/profile'' JNull,
       Respond 0 (Response 401 JNull), Respond 0 (Response 401 JNull),
       Respond 0 (Response 401 JNull)] (init logged_in))) = [] \<and>
      (\<exists>more.
         refreshSubscribers (run evs (run [Call 1 ''/projects/getUserProjects'' JNull,
           Call 2 ''/auth/profile'' JNull,
           Respond 0 (Response 401 JNull), Respond 0 (Response 401 JNull),
           Respond 0 (Response 401 JNull)] (init logged_in))) =
         \<lparr>sub_config = \<lparr>url = ''/projects/getUserProjects'', body = JNull,
                         Authorization = Some ''Bearer at1'', retry = True\<rparr>, sub_waiter = Caller 1\<rparr> #
         \<lparr>sub_config = \<lparr>url = ''/auth/profile'', body = JNull,
                         Authorization = Some ''Bearer at1'', retry = True\<rparr>, sub_waiter = Caller 2\<rparr> #
         more))"
proof -
  let ?s = "run [Call 1 ''/projects/getUserProjects'' JNull, Call 2 ''/auth/profile'' JNull,
       Respond 0 (Response 401 JNull), Respond 0 (Response 401 JNull),
       Respond 0 (Response 401 JNull)] (init logged_in)"
  let ?sub1 = "\<lparr>sub_config = \<lparr>url = ''/projects/getUserProjects'', body = JNull,
                      Authorization = Some ''Bearer at1'', retry = True\<rparr>, sub_waiter = Caller 1\<rparr>"
  let ?sub2 = "\<lparr>sub_config = \<lparr>url = ''/auth/profile'', body = JNull,
                      Authorization = Some ''Bearer at1'', retry = True\<rparr>, sub_waiter = Caller 2\<rparr>"
  let ?subx = "\<lparr>sub_config = \<lparr>url = ''/auth/refresh'', body = JObj [(''refresh_token'', JStr ''rt1'')],
                      Authorization = Some ''Bearer at1'', retry = True\<rparr>, sub_waiter = AutoRefresh\<rparr>"
  have a: "isRefreshing ?s" and b: "auto_requests (inflight ?s) = 0" and c: "notified ?s = []"
    by (simp_all add: scenario_defs auto_requests_def)
  have subs: "refreshSubscribers ?s = [?sub1, ?sub2, ?subx]"
    by (simp add: scenario_defs)
  have "notified (run evs ?s) = [] \<and>
      (\<exists>more. refreshSubscribers (run evs ?s) = ?sub1 # ?sub2 # more)" for evs
    using parked_run [OF a b, of evs] unfolding c subs by auto
  moreover have "registered ?s = [?sub1, ?sub2, ?subx]" "inflight ?s = []" "settled ?s = []"
    by (simp_all add: scenario_defs)
  ultimately show ?thesis by blast
qed

section \<open>At most one retry\<close>

text \<open>
  Claim C3. A call's request that carries the retry mark and is answered 401 is not
  parked again: the 401 error is handed to the caller, and nothing else changes, so no
  refresh is started. A call that is answered 401, is sent again after a successful
  refresh and is answered 401 once more ends with that error; in the whole course one
  exchange and one retry were sent. In every run from an initial state every subscriber
  ever registered carries the retry mark, and \<^verbatim>\<open>onSuccess\<close> sends its configuration again
  with the mark.
\<close>

theorem retry_at_most_once:
  "(k < length (inflight s) \<and> req_waiter (inflight s ! k) = Caller c \<and>
    retry (req_config (inflight s ! k)) \<longrightarrow>
      respond k (Response 401 d) s =
        s\<lparr>inflight := take k (inflight s) @ drop (Suc k) (inflight s),
          settled := settled s @ [(Caller c, Inl (HttpError 401))]\<rparr>) \<and>
   (\<not> isRefreshing s \<and> refreshSubscribers s = [] \<and>
    getItem (localStorage s) ''refresh_token'' = Some rt \<and> rt \<noteq> [] \<and>
    inflight s = others @ [x] \<and> req_waiter x = Caller c \<and> \<not> retry (req_config x) \<and>
    200 \<le> status \<and> status < 300 \<and>
    string_field tokens ''access_token'' = Some a \<and> string_field tokens ''refresh_token'' = Some r \<and>
    a \<noteq> [] \<and> r \<noteq> [] \<longrightarrow>
      run [Respond (length others) (Response 401 d),
           Respond (length others) (Response status tokens),
           Respond (length others) (Response 401 d')] s =
        s\<lparr>localStorage := setItem ''refresh_token'' r (setItem ''access_token'' a (localStorage s)),
          isRefreshing := False,
          refreshSubscribers := [],
          inflight := others,
          sent := sent s @ [refresh_exchange (localStorage s) rt, retried a (pending_caller x)],
          registered := registered s @ [pending_caller x],
          notified := notified s @ [(pending_caller x, Inr a)],
          settled := settled s @ [(Caller c, Inl (HttpError 401))]\<rparr>) \<and>
   list_all (\<lambda>sub. retry (sub_config sub)) (registered (run evs (init st))) \<and>
   retry (req_config (retried token sub)) = retry (sub_config sub)"
proof -
  have one: "respond k (Response 401 d) s =
        s\<lparr>inflight := take k (inflight s) @ drop (Suc k) (inflight s),
          settled := settled s @ [(Caller c, Inl (HttpError 401))]\<rparr>"
    if "k < length (inflight s)" "req_waiter (inflight s ! k) = Caller c"
      "retry (req_config (inflight s ! k))"
    using that by (simp add: respond_def response_rejected_def reject_def settle_def Let_def)
  have two: "run [Respond (length others) (Response 401 d),
           Respond (length others) (Response status tokens),
           Respond (length others) (Response 401 d')] s =
        s\<lparr>localStorage := setItem ''refresh_token'' r (setItem ''access_token'' a (localStorage s)),
          isRefreshing := False,
          refreshSubscribers := [],
          inflight := others,
          sent := sent s @ [refresh_exchange (localStorage s) rt, retried a (pending_caller x)],
          registered := registered s @ [pending_caller x],
          notified := notified s @ [(pending_caller x, Inr a)],
          settled := settled s @ [(Caller c, Inl (HttpError 401))]\<rparr>"
    if h: "\<not> isRefreshing s" "refreshSubscribers s = []"
      "getItem (localStorage s) ''refresh_token'' = Some rt" "rt \<noteq> []"
      "inflight s = others @ [x]" "req_waiter x = Caller c" "\<not> retry (req_config x)"
      "200 \<le> status \<and> status < 300"
      "string_field tokens ''access_token'' = Some a" "string_field tokens ''refresh_token'' = Some r"
      "a \<noteq> []" "r \<noteq> []"
  proof -
    have l: "list_all (\<lambda>r. is_caller (req_waiter r) \<and> \<not> retry (req_config r)) [x]"
      using h(6,7) by simp
    have pre: "200 \<le> status \<and> status < 300 \<and>
        string_field tokens ''access_token'' = Some a \<and> string_field tokens ''refresh_token'' = Some r \<and>
        a \<noteq> [] \<and> r \<noteq> [] \<and> length [Response 401 d'] = length [x]"
      using h(8-12) by simp
    have ne: "[x] \<noteq> []" and len: "length [d] = length [x]"
      by simp_all
    note S = refresh_scenario [OF h(1-5) ne l len,
        THEN conjunct2, THEN conjunct1, rule_format, OF pre]
    from S show ?thesis using h(6) by simp
  qed
  show ?thesis
    using one two registered_marked_run [of evs st]
    by (simp add: retried_def)
qed

theorem retry_at_most_once_witness:
  "run [Respond 0 (Response 401 JNull),
        Respond 0 (Response 200 (JObj [(''access_token'', JStr ''at2''), (''refresh_token'', JStr ''rt2'')])),
        Respond 0 (Response 401 JNull)]
     (run [Call 1 ''/projects/getUserProjects'' JNull] (init logged_in)) =
   (run [Call 1 ''/projects/getUserProjects'' JNull] (init logged_in))
     \<lparr>localStorage := setItem ''refresh_token'' ''rt2'' (setItem ''access_token'' ''at2'' logged_in),
      isRefreshing := False,
      refreshSubscribers := [],
      inflight := [],
      sent :=
        [\<lparr>req_config = \<lparr>url = ''/projects/getUserProjects'', body = JNull,
                          Authorization = Some ''Bearer at1'', retry = False\<rparr>, req_waiter = Caller 1\<rparr>,
         \<lparr>req_config = \<lparr>url = ''/auth/refresh'', body = JObj [(''refresh_token'', JStr ''rt1'')],
                          Authorization = Some ''Bearer at1'', retry = False\<rparr>, req_waiter = AutoRefresh\<rparr>,
         \<lparr>req_config = \<lparr>url = ''/projects/getUserProjects'', body = JNull,
                          Authorization = Some ''Bearer at2'', retry = True\<rparr>, req_waiter = Caller 1\<rparr>],
      registered :=
        [\<lparr>sub_config = \<lparr>url = ''/projects/getUserProjects'', body = JNull,
                          Authorization = Some ''Bearer at1'', retry = True\<rparr>, sub_waiter = Caller 1\<rparr>],
      notified :=
        [(\<lparr>sub_config = \<lparr>url = ''/projects/getUserProjects'', body = JNull,
                           Authorization = Some ''Bearer at1'', retry = True\<rparr>, sub_waiter = Caller 1\<rparr>,
          Inr ''at2'')],
      settled := [(Caller 1, Inl (HttpError 401))]\<rparr>"
proof -
  let ?s = "run [Call 1 ''/projects/getUserProjects'' JNull] (init logged_in)"
  let ?x = "\<lparr>req_config = \<lparr>url = ''/projects/getUserProjects'', body = JNull,
                          Authorization = Some ''Bearer at1'', retry = False\<rparr>, req_waiter = Caller 1\<rparr>"
  let ?d = "JObj [(''access_token'', JStr ''at2''), (''refresh_token'', JStr ''rt2'')]"
  have pre: "\<not> isRefreshing ?s \<and> refreshSubscribers ?s = [] \<and>
    getItem (localStorage ?s) ''refresh_token'' = Some ''rt1'' \<and> ''rt1'' \<noteq> [] \<and>
    inflight ?s = [] @ [?x] \<and> req_waiter ?x = Caller 1 \<and> \<not> retry (req_config ?x) \<and>
    (200::nat) \<le> 200 \<and> (200::nat) < 300 \<and>
    string_field ?d ''access_token'' = Some ''at2'' \<and> string_field ?d ''refresh_token'' = Some ''rt2'' \<and>
    ''at2'' \<noteq> [] \<and> ''rt2'' \<noteq> []"
    by (simp add: scenario_defs)
  have ls: "localStorage ?s = logged_in" and sn: "sent ?s = [?x]"
    and rg: "registered ?s = []" and nt: "notified ?s = []" and st: "settled ?s = []"
    by (simp_all add: scenario_defs)
  note T = retry_at_most_once [where s = ?s and c = 1 and d = JNull and rt = "''rt1''"
      and others = "[]" and x = ?x and status = 200 and tokens = ?d and a = "''at2''"
      and r = "''rt2''" and d' = JNull,
      THEN conjunct2, THEN conjunct1, rule_format, OF pre]
  from T show ?thesis
    unfolding ls sn rg nt st
    by (simp add: refresh_exchange_def retried_def pending_caller_def signed_def
        request_interceptor_def getItem_def logged_in_def)
qed

section \<open>A refresh exchange that is answered 401\<close>

text \<open>
  Claim C4, at the failing input. The store holds a token pair, a call is answered 401 and
  the refresh exchange is answered 401 as well. The interceptor handles the answer to the
  exchange like that to any request: the flag is set, so it parks the exchange in the
  subscriber list, behind the call that waits for it. \<^verbatim>\<open>refreshToken()\<close> never ends:
  the tokens stay in the store, no subscriber is notified, the list is not emptied and
  the flag stays set, whatever happens afterwards.
\<close>

theorem refresh_answered_401_never_settles:
  "getItem (localStorage (run [Call 1 ''/projects/getUserProjects'' JNull,
       Respond 0 (Response 401 JNull), Respond 0 (Response 401 JNull)] (init logged_in)))
     ''access_token'' = Some ''at1'' \<and>
   getItem (localStorage (run [Call 1 ''/projects/getUserProjects'' JNull,
       Respond 0 (Response 401 JNull), Respond 0 (Response 401 JNull)] (init logged_in)))
     ''refresh_token'' = Some ''rt1'' \<and>
   refreshSubscribers (run [Call 1 ''/projects/getUserProjects'' JNull,
       Respond 0 (Response 401 JNull), Respond 0 (Response 401 JNull)] (init logged_in)) =
     [\<lparr>sub_config = \<lparr>url = ''/projects/getUserProjects'', body = JNull,
                      Authorization = Some ''Bearer at1'', retry = True\<rparr>, sub_waiter = Caller 1\<rparr>,
      \<lparr>sub_config = \<lparr>url = ''/auth/refresh'', body = JObj [(''refresh_token'', JStr ''rt1'')],
                      Authorization = Some ''Bearer at1'', retry = True\<rparr>, sub_waiter = AutoRefresh\<rparr>] \<and>
   inflight (run [Call 1 ''/projects/getUserProjects'' JNull,
       Respond 0 (Response 401 JNull), Respond 0 (Response 401 JNull)] (init logged_in)) = [] \<and>
   settled (run [Call 1 ''/projects/getUserProjects'' JNull,
       Respond 0 (Response 401 JNull), Respond 0 (Response 401 JNull)] (init logged_in)) = [] \<and>
   (\<forall>evs. isRefreshing (run evs (run [Call 1 ''/projects/getUserProjects'' JNull,
       Respond 0 (Response 401 JNull), Respond 0 (Response 401 JNull)] (init logged_in))) \<and>
     notified (run evs (run [Call 1 ''/projects/getUserProjects'' JNull,
       Respond 0 (Response 401 JNull), Respond 0 (Response 401 JNull)] (init logged_in))) = [])"
proof -
  let ?s = "run [Call 1 ''/projects/getUserProjects'' JNull,
       Respond 0 (Response 401 JNull), Respond 0 (Response 401 JNull)] (init logged_in)"
  have a: "isRefreshing ?s" and b: "auto_requests (inflight ?s) = 0" and c: "notified ?s = []"
    by (simp_all add: scenario_defs auto_requests_def)
  have "isRefreshing (run evs ?s) \<and> notified (run evs ?s) = []" for evs
    using parked_run [OF a b, of evs] c by simp
  moreover have "getItem (localStorage ?s) ''access_token'' = Some ''at1''"
    "getItem (localStorage ?s) ''refresh_token'' = Some ''rt1''"
    "refreshSubscribers ?s =
     [\<lparr>sub_config = \<lparr>url = ''/projects/getUserProjects'', body = JNull,
                      Authorization = Some ''Bearer at1'', retry = True\<rparr>, sub_waiter = Caller 1\<rparr>,
      \<lparr>sub_config = \<lparr>url = ''/auth/refresh'', body = JObj [(''refresh_token'', JStr ''rt1'')],
                      Authorization = Some ''Bearer at1'', retry = True\<rparr>, sub_waiter = AutoRefresh\<rparr>]"
    "inflight ?s = []" "settled ?s = []"
    by (simp_all add: scenario_defs)
  ultimately show ?thesis by blast
qed

section \<open>Logout\<close>

text \<open>
  Claim C7, at the failing input. The store holds a token pair, the logout request is
  answered 401 and so is the refresh exchange that the interceptor starts for it. The
  \<^verbatim>\<open>await\<close> of \<^verbatim>\<open>logout()\<close> never returns, so its \<^verbatim>\<open>finally\<close> block does not run: both
  tokens stay in the store, nothing is settled towards the caller, nothing is left on the
  network, and no later event notifies the parked logout request.
\<close>

theorem logout_answered_401_keeps_tokens:
  "getItem (localStorage (run [LogoutCall 1,
       Respond 0 (Response 401 JNull), Respond 0 (Response 401 JNull)] (init logged_in)))
     ''access_token'' = Some ''at1'' \<and>
   getItem (localStorage (run [LogoutCall 1,
       Respond 0 (Response 401 JNull), Respond 0 (Response 401 JNull)] (init logged_in)))
     ''refresh_token'' = Some ''rt1'' \<and>
   map sub_waiter (refreshSubscribers (run [LogoutCall 1,
       Respond 0 (Response 401 JNull), Respond 0 (Response 401 JNull)] (init logged_in))) =
     [Logout 1, AutoRefresh] \<and>
   inflight (run [LogoutCall 1,
       Respond 0 (Response 401 JNull), Respond 0 (Response 401 JNull)] (init logged_in)) = [] \<and>
   settled (run [LogoutCall 1,
       Respond 0 (Response 401 JNull), Respond 0 (Response 401 JNull)] (init logged_in)) = [] \<and>
   (\<forall>evs. notified (run evs (run [LogoutCall 1,
       Respond 0 (Response 401 JNull), Respond 0 (Response 401 JNull)] (init logged_in))) = [])"
proof -
  let ?s = "run [LogoutCall 1,
       Respond 0 (Response 401 JNull), Respond 0 (Response 401 JNull)] (init logged_in)"
  have a: "isRefreshing ?s" and b: "auto_requests (inflight ?s) = 0" and c: "notified ?s = []"
    by (simp_all add: scenario_defs auto_requests_def)
  have "notified (run evs ?s) = []" for evs
    using parked_run [OF a b, of evs] c by simp
  moreover have "getItem (localStorage ?s) ''access_token'' = Some ''at1''"
    "getItem (localStorage ?s) ''refresh_token'' = Some ''rt1''"
    "map sub_waiter (refreshSubscribers ?s) = [Logout 1, AutoRefresh]"
    "inflight ?s = []" "settled ?s = []"
    by (simp_all add: scenario_defs)
  ultimately show ?thesis by blast
qed

section \<open>Manual refresh\<close>

text \<open>
  Claim C9, at the failing input. The store holds a token pair, no refresh is in progress
  and the subscriber list is empty; \<^verbatim>\<open>manualRefreshToken()\<close> is called and its exchange is
  answered 401. The interceptor sets the flag, starts an exchange of its own and
  registers the manual exchange as a subscriber.
\<close>

theorem manual_refresh_answered_401_joins_queue:
  "isRefreshing (init logged_in) = False \<and>
   refreshSubscribers (init logged_in) = [] \<and>
   isRefreshing (run [ManualRefreshCall 1, Respond 0 (Response 401 JNull)] (init logged_in)) = True \<and>
   refreshSubscribers (run [ManualRefreshCall 1, Respond 0 (Response 401 JNull)] (init logged_in)) =
     [\<lparr>sub_config = \<lparr>url = ''/auth/refresh'', body = JObj [(''refresh_token'', JStr ''rt1'')],
                      Authorization = Some ''Bearer at1'', retry = True\<rparr>,
       sub_waiter = ManualRefresh 1\<rparr>] \<and>
   inflight (run [ManualRefreshCall 1, Respond 0 (Response 401 JNull)] (init logged_in)) =
     [\<lparr>req_config = \<lparr>url = ''/auth/refresh'', body = JObj [(''refresh_token'', JStr ''rt1'')],
                      Authorization = Some ''Bearer at1'', retry = False\<rparr>,
       req_waiter = AutoRefresh\<rparr>] \<and>
   settled (run [ManualRefreshCall 1, Respond 0 (Response 401 JNull)] (init logged_in)) = []"
  by (simp add: scenario_defs)

end
